theory Spec2Isabelle
  imports Main "HOL-Library.AList" "HOL-Library.Multiset" "HOL-Library.List_Lexorder"
    "HOL-Library.Char_ord"
begin

section \<open>JavaScript strings\<close>

text \<open>
  A JavaScript string is a sequence of code units. The model uses \<open>string\<close> and so
  covers the code units 0..255 (Latin-1); within that range white space, line terminators
  and case mapping are the ones of ECMAScript. Documents with other code units are outside
  the model.
\<close>

definition code :: "char \<Rightarrow> nat" where
  "code c = of_char c"

definition is_space :: "char \<Rightarrow> bool" where
  \<comment> \<open>\<open>\s\<close> and the characters removed by \<open>trim\<close>: TAB, LF, VT, FF, CR, SP, NBSP\<close>
  "is_space c \<longleftrightarrow> (9 \<le> code c \<and> code c \<le> 13) \<or> code c = 32 \<or> code c = 160"

definition is_dot :: "char \<Rightarrow> bool" where
  \<comment> \<open>\<open>.\<close> without the s flag: anything but a line terminator\<close>
  "is_dot c \<longleftrightarrow> code c \<noteq> 10 \<and> code c \<noteq> 13"

definition is_any :: "char \<Rightarrow> bool" where
  \<comment> \<open>\<open>[\s\S]\<close>\<close>
  "is_any c \<longleftrightarrow> True"

definition is_key_char :: "char \<Rightarrow> bool" where
  \<comment> \<open>\<open>[A-Za-z0-9_\-]\<close>\<close>
  "is_key_char c \<longleftrightarrow>
     (65 \<le> code c \<and> code c \<le> 90) \<or> (97 \<le> code c \<and> code c \<le> 122) \<or>
     (48 \<le> code c \<and> code c \<le> 57) \<or> code c = 95 \<or> code c = 45"

definition is_term_char :: "char \<Rightarrow> bool" where
  \<comment> \<open>\<open>[^:\r\n]\<close>\<close>
  "is_term_char c \<longleftrightarrow> code c \<noteq> 58 \<and> code c \<noteq> 13 \<and> code c \<noteq> 10"

definition is_char :: "char \<Rightarrow> char \<Rightarrow> bool" where
  "is_char a c \<longleftrightarrow> c = a"

definition lower_char :: "char \<Rightarrow> char" where
  "lower_char c =
     (if (65 \<le> code c \<and> code c \<le> 90) \<or> (192 \<le> code c \<and> code c \<le> 222 \<and> code c \<noteq> 215)
      then char_of (code c + 32) else c)"

definition toLowerCase :: "string \<Rightarrow> string" where
  "toLowerCase s = map lower_char s"

definition trimStart :: "string \<Rightarrow> string" where
  "trimStart s = dropWhile is_space s"

definition trimEnd :: "string \<Rightarrow> string" where
  "trimEnd s = rev (dropWhile is_space (rev s))"

definition trim :: "string \<Rightarrow> string" where
  "trim s = trimEnd (trimStart s)"

definition startsWith :: "string \<Rightarrow> string \<Rightarrow> bool" where
  "startsWith s p \<longleftrightarrow> take (length p) s = p"

definition includes_char :: "string \<Rightarrow> char \<Rightarrow> bool" where
  "includes_char s c \<longleftrightarrow> c \<in> set s"

fun split_on :: "char \<Rightarrow> string \<Rightarrow> string list" where
  \<comment> \<open>\<open>s.split(c)\<close> for a one-character separator\<close>
  "split_on c [] = [[]]"
| "split_on c (x # xs) =
     (if x = c then [] # split_on c xs
      else (case split_on c xs of h # t \<Rightarrow> (x # h) # t | [] \<Rightarrow> [[x]]))"

fun split_lines :: "string \<Rightarrow> string list" where
  \<comment> \<open>\<open>s.split(/\r?\n/)\<close>\<close>
  "split_lines [] = [[]]"
| "split_lines (x # xs) =
     (if x = CHR 0x0A then [] # split_lines xs
      else if x = CHR 0x0D \<and> (case xs of y # _ \<Rightarrow> y = CHR 0x0A | [] \<Rightarrow> False)
        then [] # split_lines (tl xs)
      else (case split_lines xs of h # t \<Rightarrow> (x # h) # t | [] \<Rightarrow> [[x]]))"

section \<open>Regular expressions\<close>

text \<open>
  The regular expressions of the source are sequences of single-character atoms, greedy or
  lazy repetitions of a character class, capture groups and the end anchor. They are all
  anchored at the start. The matcher backtracks in the order of ECMAScript: a greedy
  repetition tries the longest run first, a lazy one the shortest. The result is the list
  of captured groups and the input left after the match.
\<close>

datatype atom =
    One "char \<Rightarrow> bool"
  | Opt "char \<Rightarrow> bool"
  | Star "char \<Rightarrow> bool"
  | Lazy "char \<Rightarrow> bool"
  | Open
  | Close
  | Eos

type_synonym caps = "bool \<times> string list"

definition take_char :: "char \<Rightarrow> caps \<Rightarrow> caps" where
  \<comment> \<open>inside an open group the consumed character joins the newest capture\<close>
  "take_char c st =
     (case st of (opn, gs) \<Rightarrow>
        (if opn then (case gs of g # r \<Rightarrow> (opn, (g @ [c]) # r) | [] \<Rightarrow> (opn, gs))
         else (opn, gs)))"

function rx :: "atom list \<Rightarrow> string \<Rightarrow> caps \<Rightarrow> (string list \<times> string) option" where
  "rx [] s st = Some (rev (snd st), s)"
| "rx (One p # as) s st =
     (case s of [] \<Rightarrow> None
      | c # cs \<Rightarrow> if p c then rx as cs (take_char c st) else None)"
| "rx (Opt p # as) s st =
     (case s of [] \<Rightarrow> rx as s st
      | c # cs \<Rightarrow>
          if p c then (case rx as cs (take_char c st) of Some r \<Rightarrow> Some r | None \<Rightarrow> rx as s st)
          else rx as s st)"
| "rx (Star p # as) s st =
     (case s of [] \<Rightarrow> rx as s st
      | c # cs \<Rightarrow>
          if p c then (case rx (Star p # as) cs (take_char c st) of Some r \<Rightarrow> Some r
                       | None \<Rightarrow> rx as s st)
          else rx as s st)"
| "rx (Lazy p # as) s st =
     (case rx as s st of Some r \<Rightarrow> Some r
      | None \<Rightarrow>
          (case s of [] \<Rightarrow> None
           | c # cs \<Rightarrow> if p c then rx (Lazy p # as) cs (take_char c st) else None))"
| "rx (Open # as) s st = rx as s (True, [] # snd st)"
| "rx (Close # as) s st = rx as s (False, snd st)"
| "rx (Eos # as) s st = (if s = [] then rx as s st else None)"
  by pat_completeness auto
termination
  by (relation "measures [\<lambda>(as, s, st). length s, \<lambda>(as, s, st). length as]") auto

definition match :: "atom list \<Rightarrow> string \<Rightarrow> (string list \<times> string) option" where
  "match re s = rx re s (False, [])"

definition group :: "string list \<Rightarrow> nat \<Rightarrow> string" where
  \<comment> \<open>\<open>m[k] ?? ""\<close>, groups counted from 1\<close>
  "group gs k = (if 1 \<le> k \<and> k \<le> length gs then gs ! (k - 1) else [])"

section \<open>Frontmatter extraction\<close>

record frontmatter =
  yaml :: "string option"
  body :: string

definition re_frontmatter :: "atom list" where
  \<comment> \<open>\<open>/^---\s*\n([\s\S]*?)\n---\s*\n?/\<close>\<close>
  "re_frontmatter =
     [One (is_char CHR ''-''), One (is_char CHR ''-''), One (is_char CHR ''-''),
      Star is_space, One (is_char CHR 0x0A),
      Open, Lazy is_any, Close,
      One (is_char CHR 0x0A),
      One (is_char CHR ''-''), One (is_char CHR ''-''), One (is_char CHR ''-''),
      Star is_space, Opt (is_char CHR 0x0A)]"

definition extractFrontmatter :: "string \<Rightarrow> frontmatter" where
  "extractFrontmatter markdown =
     (if \<not> startsWith markdown ''---'' then \<lparr>yaml = None, body = markdown\<rparr>
      else (case match re_frontmatter markdown of
              None \<Rightarrow> \<lparr>yaml = None, body = markdown\<rparr>
            | Some (gs, rest) \<Rightarrow> \<lparr>yaml = Some (group gs 1), body = rest\<rparr>))"

section \<open>Plain objects used as string-keyed maps\<close>

text \<open>
  \<open>Record<string, string[]>\<close> values are plain JavaScript objects. The model keeps the own
  properties in the order in which \<open>Object.entries\<close> and \<open>Object.keys\<close> list them
  (array-index keys first, ascending, then the other keys in insertion order), and keeps
  apart the prototype that an assignment to the key \<open>__proto__\<close> installs instead of
  creating a property.
\<close>

record jsobj =
  entries :: "(string \<times> string list) list"
  proto :: "string list option"

definition empty_obj :: jsobj where
  "empty_obj = \<lparr>entries = [], proto = None\<rparr>"

definition is_digit :: "char \<Rightarrow> bool" where
  "is_digit c \<longleftrightarrow> 48 \<le> code c \<and> code c \<le> 57"

definition digits_value :: "string \<Rightarrow> int" where
  "digits_value s = foldl (\<lambda>n c. 10 * n + (int (code c) - 48)) 0 s"

definition is_array_index :: "string \<Rightarrow> bool" where
  \<comment> \<open>the canonical decimal form of an integer below \<open>2^32 - 1\<close>\<close>
  "is_array_index k \<longleftrightarrow>
     k \<noteq> [] \<and> list_all is_digit k \<and> (k = ''0'' \<or> hd k \<noteq> CHR ''0'') \<and>
     length k \<le> 10 \<and> digits_value k < 4294967295"

fun insert_index :: "string \<Rightarrow> string list \<Rightarrow> (string \<times> string list) list \<Rightarrow>
    (string \<times> string list) list" where
  "insert_index k v [] = [(k, v)]"
| "insert_index k v ((k', v') # es) =
     (if is_array_index k' \<and> digits_value k' < digits_value k
      then (k', v') # insert_index k v es
      else (k, v) # (k', v') # es)"

definition define_property :: "jsobj \<Rightarrow> string \<Rightarrow> string list \<Rightarrow> jsobj" where
  \<comment> \<open>creates or overwrites an own property\<close>
  "define_property obj k v =
     (if k \<in> fst ` set (entries obj) then obj\<lparr>entries := AList.update k v (entries obj)\<rparr>
      else if is_array_index k then obj\<lparr>entries := insert_index k v (entries obj)\<rparr>
      else obj\<lparr>entries := entries obj @ [(k, v)]\<rparr>)"

definition obj_set :: "jsobj \<Rightarrow> string \<Rightarrow> string list \<Rightarrow> jsobj" where
  \<comment> \<open>the assignment \<open>obj[k] = v\<close> of an array \<open>v\<close>\<close>
  "obj_set obj k v =
     (if k = ''__proto__'' \<and> k \<notin> fst ` set (entries obj) then obj\<lparr>proto := Some v\<rparr>
      else define_property obj k v)"

definition obj_get :: "jsobj \<Rightarrow> string \<Rightarrow> string list option" where
  \<comment> \<open>\<open>obj[k]\<close> when that value is an array, \<open>None\<close> when it is anything else: what is
      inherited from \<open>Object.prototype\<close> or from an installed array prototype is never an
      array, except the prototype itself under the key \<open>__proto__\<close>\<close>
  "obj_get obj k =
     (case map_of (entries obj) k of
        Some v \<Rightarrow> Some v
      | None \<Rightarrow> if k = ''__proto__'' then proto obj else None)"

section \<open>The YAML subset parser\<close>

definition strip_open_bracket :: "string \<Rightarrow> string" where
  \<comment> \<open>\<open>.replace(/^\[/, "")\<close>\<close>
  "strip_open_bracket s = (case s of c # cs \<Rightarrow> if c = CHR ''['' then cs else s | [] \<Rightarrow> s)"

definition strip_close_bracket :: "string \<Rightarrow> string" where
  \<comment> \<open>\<open>.replace(/\]$/, "")\<close>\<close>
  "strip_close_bracket s = (if s \<noteq> [] \<and> last s = CHR '']'' then butlast s else s)"

definition parseInlineArray :: "string \<Rightarrow> string list" where
  "parseInlineArray v =
     (let inner = strip_close_bracket (strip_open_bracket (trim v))
      in if trim inner = [] then []
         else filter (\<lambda>s. s \<noteq> []) (map trim (split_on CHR '','' inner)))"

definition re_block_item :: "nat \<Rightarrow> atom list" where
  \<comment> \<open>\<open>new RegExp("^" + " ".repeat(indentSpaces) + "-\\s*(.*)$")\<close>\<close>
  "re_block_item indentSpaces =
     replicate indentSpaces (One (is_char CHR '' '')) @
     [One (is_char CHR ''-''), Star is_space, Open, Star is_dot, Close, Eos]"

definition line_at :: "string list \<Rightarrow> int \<Rightarrow> string" where
  \<comment> \<open>\<open>lines[i] ?? ""\<close>\<close>
  "line_at lines i = (if 0 \<le> i \<and> i < int (length lines) then lines ! nat i else [])"

record block_array =
  items :: "string list"
  end_index :: int

function block_loop :: "string list \<Rightarrow> atom list \<Rightarrow> int \<Rightarrow> string list \<Rightarrow> string list \<times> int" where
  "block_loop lines re i acc =
     (if i < int (length lines) then
        (case match re (line_at lines i) of
           None \<Rightarrow> (acc, i)
         | Some (gs, rest) \<Rightarrow>
             (let item = trim (group gs 1)
              in block_loop lines re (i + 1) (if item \<noteq> [] then acc @ [item] else acc)))
      else (acc, i))"
  by pat_completeness auto
termination
  by (relation "measure (\<lambda>(lines, re, i, acc). nat (int (length lines) - i))") auto

definition parseBlockArray :: "string list \<Rightarrow> int \<Rightarrow> nat \<Rightarrow> block_array" where
  \<comment> \<open>both call sites pass a start index of at least 1, so every line read is in range\<close>
  "parseBlockArray lines startIndex indentSpaces =
     (case block_loop lines (re_block_item indentSpaces) startIndex [] of
        (acc, i) \<Rightarrow> \<lparr>items = acc, end_index = i - 1\<rparr>)"

datatype visibility_value = Absent | Scalar string | Array "string list"

record parsed_subset =
  visibility :: visibility_value
  visibility_emails :: "jsobj option"

definition empty_subset :: parsed_subset where
  \<comment> \<open>\<open>{}\<close>: no field set\<close>
  "empty_subset = \<lparr>visibility = Absent, visibility_emails = None\<rparr>"

definition re_top_level :: "atom list" where
  \<comment> \<open>\<open>/^([A-Za-z0-9_\-]+)\s*:\s*(.*)$/\<close>\<close>
  "re_top_level =
     [Open, One is_key_char, Star is_key_char, Close, Star is_space, One (is_char CHR '':''),
      Star is_space, Open, Star is_dot, Close, Eos]"

definition re_top_key :: "atom list" where
  \<comment> \<open>\<open>/^[A-Za-z0-9_\-]+\s*:/\<close>\<close>
  "re_top_key = [One is_key_char, Star is_key_char, Star is_space, One (is_char CHR '':'')]"

definition re_sub_mapping :: "atom list" where
  \<comment> \<open>\<open>/^\s{2}([^:\r\n]+)\s*:\s*(.*)$/\<close>\<close>
  "re_sub_mapping =
     [One is_space, One is_space, Open, One is_term_char, Star is_term_char, Close,
      Star is_space, One (is_char CHR '':''), Star is_space, Open, Star is_dot, Close, Eos]"

declare block_loop.simps [simp del]

lemma block_loop_index: "block_loop lines re i acc = (acc', i') \<Longrightarrow> i \<le> i'"
proof (induction lines re i acc rule: block_loop.induct)
  case (1 lines re i acc)
  note unfolded = "1.prems"[unfolded block_loop.simps[of lines re i acc]]
  show ?case
  proof (cases "i < int (length lines)")
    case False
    with unfolded show ?thesis by simp
  next
    case True
    show ?thesis
    proof (cases "match re (line_at lines i)")
      case None
      with True unfolded show ?thesis by simp
    next
      case (Some r)
      obtain gs rest where r: "r = (gs, rest)" by (cases r)
      have "i + 1 \<le> i'"
        using True Some r unfolded "1.IH"[OF True Some r[symmetric] refl]
        by (simp add: Let_def del: One_nat_def)
      then show ?thesis by simp
    qed
  qed
qed

lemma parseBlockArray_end: "startIndex - 1 \<le> end_index (parseBlockArray lines startIndex n)"
proof -
  obtain acc i where r: "block_loop lines (re_block_item n) startIndex [] = (acc, i)"
    by (cases "block_loop lines (re_block_item n) startIndex []")
  from block_loop_index[OF r] r show ?thesis by (simp add: parseBlockArray_def)
qed

text \<open>
  The inner loop of the \<open>visibility_emails\<close> branch: \<open>j\<close> is its own index, \<open>i\<close> the
  index of the outer loop, which the inner loop assigns, and \<open>m\<close> the map being filled.
  The result is the outer index and the map when the loop is left.
\<close>

function emails_loop :: "string list \<Rightarrow> int \<Rightarrow> int \<Rightarrow> jsobj \<Rightarrow> int \<times> jsobj" where
  "emails_loop lines j i m =
     (if j < int (length lines) then
        (let sub = line_at lines j in
         if match re_top_key sub \<noteq> None \<or> startsWith sub ''---'' then (j - 1, m)
         else
           (case match re_sub_mapping sub of
              None \<Rightarrow> emails_loop lines (j + 1) i m
            | Some (gs, rest) \<Rightarrow>
                (let term = trim (group gs 1); after = trim (group gs 2) in
                 if term = [] then emails_loop lines (j + 1) i m
                 else if startsWith after ''['' then
                   emails_loop lines (j + 1) j (obj_set m term (parseInlineArray after))
                 else if after = [] then
                   (let b = parseBlockArray lines (j + 1) 4 in
                    emails_loop lines (end_index b + 1) (end_index b) (obj_set m term (items b)))
                 else emails_loop lines (j + 1) j (obj_set m term [after]))))
      else (i, m))"
  by pat_completeness auto
termination
proof (relation "measure (\<lambda>(lines, j, i, m). nat (int (length lines) - j))", goal_cases)
  case (5 lines j i m sub r gs rest t after b)
  have "j \<le> end_index (parseBlockArray lines (j + 1) 4)"
    using parseBlockArray_end[of "j + 1" lines 4] by simp
  with 5 show ?case by simp
qed auto

declare emails_loop.simps [simp del]

lemma emails_loop_index: "emails_loop lines j i m = (i', m') \<Longrightarrow> min i (j - 1) \<le> i'"
proof (induction lines j i m rule: emails_loop.induct)
  case (1 lines j i m)
  note unfolded = "1.prems"[unfolded emails_loop.simps[of lines j i m]]
  show ?case
  proof (cases "j < int (length lines)")
    case False
    with unfolded show ?thesis by simp
  next
    case True
    note inrange = True
    define sub where "sub = line_at lines j"
    show ?thesis
    proof (cases "match re_top_key sub \<noteq> None \<or> startsWith sub ''---''")
      case True
      with inrange unfolded show ?thesis by (simp add: sub_def Let_def)
    next
      case False
      note nostop = False
      show ?thesis
      proof (cases "match re_sub_mapping sub")
        case None
        from "1.IH"(1)[OF inrange sub_def nostop None] unfolded inrange nostop None
        show ?thesis by (simp add: sub_def[symmetric] Let_def)
      next
        case (Some r)
        obtain gs rest where r: "r = (gs, rest)" by (cases r)
        define t where "t = trim (group gs 1)"
        define after where "after = trim (group gs 2)"
        note ctx = inrange sub_def nostop Some r[symmetric] t_def after_def
        have b: "j \<le> end_index (parseBlockArray lines (j + 1) 4)"
          using parseBlockArray_end[of "j + 1" lines 4] by simp
        show ?thesis
          using "1.IH"(2)[OF ctx] "1.IH"(3)[OF ctx] "1.IH"(4)[OF ctx _ _ _ refl] "1.IH"(5)[OF ctx]
             unfolded inrange nostop Some r b
          by (simp add: sub_def[symmetric] Let_def t_def[symmetric] after_def[symmetric] del: One_nat_def split: if_splits)
      qed
    qed
  qed
qed

function parse_loop :: "string list \<Rightarrow> int \<Rightarrow> parsed_subset \<Rightarrow> parsed_subset" where
  "parse_loop lines i result =
     (if i < int (length lines) then
        (let line = line_at lines i in
         if trim line = [] \<or> startsWith (trim line) ''#'' then parse_loop lines (i + 1) result
         else
           (case match re_top_level line of
              None \<Rightarrow> parse_loop lines (i + 1) result
            | Some (gs, unmatched) \<Rightarrow>
                (let key = group gs 1; rest = group gs 2 in
                 if key = ''visibility'' then
                   (if rest = [] then
                      (let b = parseBlockArray lines (i + 1) 2 in
                       parse_loop lines (end_index b + 1)
                         (if items b \<noteq> [] then result\<lparr>visibility := Array (items b)\<rparr>
                          else result))
                    else if startsWith (trim rest) ''['' then
                      parse_loop lines (i + 1) (result\<lparr>visibility := Array (parseInlineArray rest)\<rparr>)
                    else
                      (let v = trim rest in
                       parse_loop lines (i + 1)
                         (if v \<noteq> [] then result\<lparr>visibility := Scalar v\<rparr> else result)))
                 else if key = ''visibility_emails'' then
                   (case emails_loop lines (i + 1) i empty_obj of
                      (i', m) \<Rightarrow>
                        parse_loop lines (i' + 1)
                          (if entries m \<noteq> [] then result\<lparr>visibility_emails := Some m\<rparr>
                           else result))
                 else parse_loop lines (i + 1) result)))
      else result)"
  by pat_completeness auto
termination
proof (relation "measure (\<lambda>(lines, i, result). nat (int (length lines) - i))", goal_cases)
  case (4 lines i result line r gs unmatched key rest b)
  have "i \<le> end_index (parseBlockArray lines (i + 1) 2)"
    using parseBlockArray_end[of "i + 1" lines 2] by simp
  with 4 show ?case by simp
next
  case (7 lines i result line r gs unmatched key rest i' m)
  have "i \<le> i'"
    using emails_loop_index[of lines "i + 1" i empty_obj i' m] 7 by simp
  with 7 show ?case by simp
qed auto

declare parse_loop.simps [simp del]

definition parseYamlSubset :: "string option \<Rightarrow> parsed_subset" where
  "parseYamlSubset y =
     (case y of
        None \<Rightarrow> empty_subset
      | Some text \<Rightarrow> if text = [] then empty_subset else parse_loop (split_lines text) 0 empty_subset)"

section \<open>Note records\<close>

text \<open>
  \<open>Date.now()\<close> and \<open>randomId()\<close> are inputs of the model: \<open>now\<close> and \<open>fresh\<close>.
\<close>

record diaryx_note =
  note_id :: string
  note_body :: string
  metadata :: parsed_subset
  note_frontmatter :: "string option"
  sourceName :: "string option"
  autoUpdateTimestamp :: bool
  lastModified :: int

definition parseDiaryxString ::
    "int \<Rightarrow> string \<Rightarrow> string \<Rightarrow> string option \<Rightarrow> string option \<Rightarrow> diaryx_note" where
  "parseDiaryxString now fresh fileContents opt_id opt_sourceName =
     (let fm = extractFrontmatter fileContents;
          subset = parseYamlSubset (yaml fm)
      in \<lparr>note_id = (case opt_id of Some i \<Rightarrow> i | None \<Rightarrow> fresh),
          note_body = trimStart (body fm),
          metadata = \<lparr>visibility = visibility subset,
                       visibility_emails = visibility_emails subset\<rparr>,
          note_frontmatter =
            (case yaml fm of Some y \<Rightarrow> if trim y \<noteq> [] then Some y else None | None \<Rightarrow> None),
          sourceName = opt_sourceName,
          autoUpdateTimestamp = False,
          lastModified = now\<rparr>)"

section \<open>The access check\<close>

definition toVisibilityArray :: "visibility_value \<Rightarrow> string list" where
  "toVisibilityArray v =
     (case v of
        Array xs \<Rightarrow> filter (\<lambda>s. s \<noteq> []) (map trim xs)
      | Scalar s \<Rightarrow> (let normalized = trim s in if normalized \<noteq> [] then [normalized] else [])
      | Absent \<Rightarrow> [])"

definition normalize_map :: "jsobj \<Rightarrow> jsobj" where
  \<comment> \<open>the case-insensitive term lookup built from \<open>Object.entries(map)\<close>\<close>
  "normalize_map m =
     foldl (\<lambda>nm (k, v). obj_set nm (toLowerCase (trim k)) v) empty_obj (entries m)"

definition lists_email :: "string list option \<Rightarrow> string \<Rightarrow> bool" where
  \<comment> \<open>\<open>Array.isArray(xs) && xs.some((entry) => entry.toLowerCase() === lowerEmail)\<close>\<close>
  "lists_email xs lowerEmail =
     (case xs of None \<Rightarrow> False | Some es \<Rightarrow> list_ex (\<lambda>entry. toLowerCase entry = lowerEmail) es)"

fun terms_loop :: "jsobj \<Rightarrow> jsobj \<Rightarrow> string \<Rightarrow> string list \<Rightarrow> bool" where
  "terms_loop m normalizedMap lowerEmail [] = False"
| "terms_loop m normalizedMap lowerEmail (term # terms) =
     (let t = trim term in
      if t = [] then terms_loop m normalizedMap lowerEmail terms
      else if lists_email (obj_get m t) lowerEmail then True
      else if lists_email (obj_get normalizedMap (toLowerCase t)) lowerEmail then True
      else terms_loop m normalizedMap lowerEmail terms)"

definition hasSharedAccess :: "diaryx_note \<Rightarrow> string \<Rightarrow> bool" where
  "hasSharedAccess note email =
     (let terms = toVisibilityArray (visibility (metadata note)) in
      if terms = [] then False
      else
        (let m = (case visibility_emails (metadata note) of Some obj \<Rightarrow> obj | None \<Rightarrow> empty_obj);
             lowerEmail = toLowerCase (trim email);
             normalizedMap = normalize_map m
         in terms_loop m normalizedMap lowerEmail terms))"

section \<open>The store\<close>

text \<open>
  The two tables are lists of rows in table order. \<open>created_at\<close> and \<open>updated_at\<close> are
  the value of SQL \<open>NOW()\<close>, an input \<open>sqlnow\<close> of every statement that uses it.
  \<open>ensured\<close> is the membership of the pool in \<open>ensuredPools\<close>; the tables that
  \<open>ensureNotesTable\<close> creates when they are missing are the empty lists.
\<close>

record note_row =
  user_id :: string
  row_id :: string
  markdown :: string
  source_name :: "string option"
  last_modified :: int
  created_at :: int
  updated_at :: int

record term_row =
  term_user_id :: string
  term_name :: string
  emails :: "string list"
  term_updated_at :: int

record db =
  diaryx_note :: "note_row list"
  diaryx_visibility_term :: "term_row list"
  ensured :: bool

definition ensureNotesTable :: "db \<Rightarrow> db" where
  "ensureNotesTable d = (if ensured d then d else d\<lparr>ensured := True\<rparr>)"

subsection \<open>Parameters that the server rejects\<close>

text \<open>
  A JavaScript number is \<open>Integer n\<close> when it is finite with the integer value \<open>n\<close>,
  \<open>Fractional n\<close> when it is finite, not an integer and lies between \<open>n\<close> and
  \<open>n + 1\<close> (\<open>100.5\<close> is \<open>Fractional 100\<close>), and \<open>NotFinite\<close> when it is
  \<open>NaN\<close> or an infinity; \<open>NotFinite\<close> also stands for \<open>undefined\<close> where a number is
  optional.
\<close>

datatype jsnum = Integer int | Fractional int | NotFinite

datatype store_error = InvalidText | InvalidBigint | BigintOutOfRange

definition text_ok :: "string \<Rightarrow> bool" where
  \<comment> \<open>a text parameter is rejected when it contains the character U+0000\<close>
  "text_ok s \<longleftrightarrow> CHR 0x00 \<notin> set s"

text \<open>
  The driver sends a number as the text that \<open>Number.prototype.toString\<close> prints, and
  the server reads that text as a \<open>BIGINT\<close>. A fraction is printed with a fraction or an
  exponent and is not the text of an integer. An integer of magnitude at most \<open>2^53\<close> is
  printed exactly. From \<open>10^21\<close> on the print has an exponent. A number of magnitude
  \<open>2^63\<close> or more is printed as a decimal outside the range of \<open>BIGINT\<close>. In between,
  the digits printed are those of the shortest decimal that reads back as the same
  number: \<open>pr\<close>, an input of the model.
\<close>

definition to_bigint :: "(int \<Rightarrow> int) \<Rightarrow> jsnum \<Rightarrow> store_error + int" where
  "to_bigint pr x =
     (case x of
        Fractional n \<Rightarrow> Inl InvalidBigint
      | NotFinite \<Rightarrow> Inl InvalidBigint
      | Integer n \<Rightarrow>
          if \<bar>n\<bar> \<le> 9007199254740992 then Inr n
          else if 1000000000000000000000 \<le> \<bar>n\<bar> then Inl InvalidBigint
          else if 9223372036854775808 \<le> \<bar>n\<bar> then Inl BigintOutOfRange
          else (let p = pr n in
                if - 9223372036854775808 \<le> p \<and> p < 9223372036854775808 then Inr p
                else Inl BigintOutOfRange))"

subsection \<open>Statements awaited together\<close>

text \<open>
  \<open>Promise.all\<close> over statements sent through the pool: the statements run on
  separate connections, each one atomically, in an order the program does not fix. The
  order is an input \<open>order\<close> of the model, a list of positions in the batch; a list that
  is not a permutation of the positions stands for the order of the batch itself. Every
  statement runs, also after another one has failed; the call fails when one of them does.
\<close>

definition scheduled :: "nat list \<Rightarrow> 'a list \<Rightarrow> 'a list" where
  "scheduled order xs =
     (if sort order = [0..<length xs] then map (\<lambda>k. xs ! k) order else xs)"

definition first_error :: "store_error option \<Rightarrow> store_error option \<Rightarrow> store_error option" where
  "first_error a b = (case a of None \<Rightarrow> b | Some e \<Rightarrow> Some e)"

fun run_all ::
    "('s \<Rightarrow> 'a \<Rightarrow> store_error option \<times> 's) \<Rightarrow> 'a list \<Rightarrow> store_error option \<times> 's \<Rightarrow>
     store_error option \<times> 's" where
  "run_all q [] r = r"
| "run_all q (x # xs) r =
     (case q (snd r) x of (e, s) \<Rightarrow> run_all q xs (first_error (fst r) e, s))"

definition await_all ::
    "nat list \<Rightarrow> ('s \<Rightarrow> 'a \<Rightarrow> store_error option \<times> 's) \<Rightarrow> 's \<Rightarrow> 'a list \<Rightarrow>
     store_error option \<times> 's" where
  "await_all order q s xs = run_all q (scheduled order xs) (None, s)"

subsection \<open>Notes\<close>

record sync_input_note =
  in_id :: string
  in_markdown :: string
  in_sourceName :: "string option"
  in_lastModified :: jsnum


fun upsert_row ::
    "int \<Rightarrow> string \<Rightarrow> string \<Rightarrow> string \<Rightarrow> string option \<Rightarrow> int \<Rightarrow> note_row list \<Rightarrow> note_row list" where
  \<comment> \<open>\<open>INSERT ... ON CONFLICT (user_id, id) DO UPDATE SET ...
      WHERE EXCLUDED.last_modified >= diaryx_note.last_modified\<close>\<close>
  "upsert_row sqlnow u i md sn lm [] =
     [\<lparr>user_id = u, row_id = i, markdown = md, source_name = sn, last_modified = lm,
       created_at = sqlnow, updated_at = sqlnow\<rparr>]"
| "upsert_row sqlnow u i md sn lm (r # rs) =
     (if user_id r = u \<and> row_id r = i then
        (if lm \<ge> last_modified r
         then r\<lparr>markdown := md, source_name := sn, last_modified := lm, updated_at := sqlnow\<rparr> # rs
         else r # rs)
      else r # upsert_row sqlnow u i md sn lm rs)"

definition lastModified_of :: "int \<Rightarrow> sync_input_note \<Rightarrow> jsnum" where
  \<comment> \<open>\<open>Number.isFinite(note.lastModified) ? Number(note.lastModified) : Date.now()\<close>\<close>
  "lastModified_of now note =
     (case in_lastModified note of NotFinite \<Rightarrow> Integer now | n \<Rightarrow> n)"

definition bind_note :: "(int \<Rightarrow> int) \<Rightarrow> int \<Rightarrow> string \<Rightarrow> sync_input_note \<Rightarrow> store_error + int" where
  \<comment> \<open>the parameters of the upsert statement as the server reads them: an error, or the
      value of \<open>last_modified\<close>\<close>
  "bind_note pr now userId note =
     (if text_ok userId \<and> text_ok (in_id note) \<and> text_ok (in_markdown note) \<and>
         (case in_sourceName note of None \<Rightarrow> True | Some s \<Rightarrow> text_ok s)
      then to_bigint pr (lastModified_of now note)
      else Inl InvalidText)"

definition upsert_query ::
    "(int \<Rightarrow> int) \<Rightarrow> int \<Rightarrow> int \<Rightarrow> string \<Rightarrow> db \<Rightarrow> sync_input_note \<Rightarrow> store_error option \<times> db" where
  "upsert_query pr now sqlnow userId d note =
     (case bind_note pr now userId note of
        Inl e \<Rightarrow> (Some e, d)
      | Inr t \<Rightarrow>
          (None,
           d\<lparr>diaryx_note :=
               upsert_row sqlnow userId (in_id note) (in_markdown note) (in_sourceName note)
                 t (diaryx_note d)\<rparr>))"

definition upsertNotesForUser ::
    "(int \<Rightarrow> int) \<Rightarrow> nat list \<Rightarrow> int \<Rightarrow> int \<Rightarrow> string \<Rightarrow> sync_input_note list option \<Rightarrow> db \<Rightarrow>
     store_error option \<times> db" where
  \<comment> \<open>the rejection of the promise, if any, and the store afterwards\<close>
  "upsertNotesForUser pr order now sqlnow userId notes d =
     (case notes of
        None \<Rightarrow> (None, d)
      | Some ns \<Rightarrow>
          if ns = [] then (None, d)
          else await_all order (upsert_query pr now sqlnow userId) (ensureNotesTable d) ns)"

subsection \<open>Visibility terms\<close>

definition dedupe :: "string list \<Rightarrow> string list" where
  \<comment> \<open>\<open>Array.from(new Set(xs))\<close>: the first occurrence of each element, in order\<close>
  "dedupe xs = rev (remdups (rev xs))"

definition normalize_emails :: "string list \<Rightarrow> string list" where
  "normalize_emails es =
     dedupe (filter (\<lambda>e. e \<noteq> []) (map (\<lambda>email. toLowerCase (trim email)) es))"

definition insert_term :: "int \<Rightarrow> string \<Rightarrow> db \<Rightarrow> string \<times> string list \<Rightarrow> store_error option \<times> db" where
  \<comment> \<open>the keys of one object are distinct and the user's rows were deleted before, so
      the primary key \<open>(user_id, term)\<close> cannot conflict\<close>
  "insert_term sqlnow userId d te =
     (if text_ok userId \<and> text_ok (fst te) \<and> list_all text_ok (snd te) then
        (None,
         d\<lparr>diaryx_visibility_term :=
             diaryx_visibility_term d @
             [\<lparr>term_user_id = userId, term_name = fst te, emails = snd te,
               term_updated_at = sqlnow\<rparr>]\<rparr>)
      else (Some InvalidText, d))"

definition updateVisibilityTermsForUser ::
    "nat list \<Rightarrow> int \<Rightarrow> string \<Rightarrow> jsobj \<Rightarrow> db \<Rightarrow> store_error option \<times> db" where
  "updateVisibilityTermsForUser order sqlnow userId terms d =
     (let d1 = ensureNotesTable d;
          termEntries = map (\<lambda>(t, es). (t, normalize_emails es)) (entries terms)
      in if \<not> text_ok userId then (Some InvalidText, d1)
         else
           (let d2 = d1\<lparr>diaryx_visibility_term :=
                         filter (\<lambda>r. term_user_id r \<noteq> userId) (diaryx_visibility_term d1)\<rparr>
            in if termEntries = [] then (None, d2)
               else await_all order (insert_term sqlnow userId) d2 termEntries))"

subsection \<open>Candidates for sharing\<close>

fun like_match :: "string \<Rightarrow> string \<Rightarrow> bool" where
  \<comment> \<open>SQL \<open>LIKE\<close>: \<open>%\<close> any run, \<open>_\<close> any character, backslash escapes\<close>
  "like_match [] s = (s = [])"
| "like_match (p # ps) s =
     (if p = CHR ''%'' then
        (like_match ps s \<or> (case s of [] \<Rightarrow> False | c # cs \<Rightarrow> like_match (p # ps) cs))
      else if p = CHR ''_'' then (case s of [] \<Rightarrow> False | c # cs \<Rightarrow> like_match ps cs)
      else if p = CHR 0x5C then
        (case ps of [] \<Rightarrow> False
         | q # qs \<Rightarrow> (case s of [] \<Rightarrow> False | c # cs \<Rightarrow> c = q \<and> like_match qs cs))
      else (case s of [] \<Rightarrow> False | c # cs \<Rightarrow> c = p \<and> like_match ps cs))"

definition listNotesSharedWithEmail :: "string \<Rightarrow> db \<Rightarrow> note_row list \<times> db" where
  \<comment> \<open>\<open>WHERE markdown ILIKE '%' || $1 || '%' ORDER BY updated_at DESC\<close>; rows with equal
      \<open>updated_at\<close> stay in table order\<close>
  "listNotesSharedWithEmail email d =
     (let d1 = ensureNotesTable d;
          pattern = toLowerCase (CHR ''%'' # email @ ''%'')
      in (sort_key (\<lambda>r. - updated_at r)
            (filter (\<lambda>r. like_match pattern (toLowerCase (markdown r))) (diaryx_note d1)),
          d1))"

section \<open>Request handlers\<close>

text \<open>
  A parsed JSON payload. In an object a later binding of a key replaces an earlier one,
  as in \<open>JSON.parse\<close>.
\<close>

datatype json =
    JNull
  | JBool bool
  | JNum jsnum
  | JStr string
  | JArr "json list"
  | JObj "(string \<times> json) list"

definition jget :: "json \<Rightarrow> string \<Rightarrow> json option" where
  \<comment> \<open>\<open>v?.k\<close> for the keys the handlers read; only an object has them\<close>
  "jget v k = (case v of JObj ps \<Rightarrow> map_of (rev ps) k | _ \<Rightarrow> None)"

definition jarray :: "json option \<Rightarrow> json list" where
  \<comment> \<open>\<open>Array.isArray(x) ? x : []\<close>\<close>
  "jarray x = (case x of Some (JArr xs) \<Rightarrow> xs | _ \<Rightarrow> [])"

definition jstring :: "json option \<Rightarrow> string option" where
  \<comment> \<open>the value when \<open>typeof x === "string"\<close>\<close>
  "jstring x = (case x of Some (JStr s) \<Rightarrow> Some s | _ \<Rightarrow> None)"

record session_user =
  su_id :: string
  su_email :: "string option"

definition valid_note :: "json \<Rightarrow> bool" where
  "valid_note note \<longleftrightarrow> jstring (jget note ''id'') \<noteq> None \<and> jstring (jget note ''markdown'') \<noteq> None"

text \<open>
  \<open>coerce\<close> stands for \<open>Number(v)\<close> on a value \<open>v\<close> that is neither a number nor
  \<open>null\<close> nor \<open>undefined\<close>.
\<close>

definition to_input_note :: "int \<Rightarrow> (json \<Rightarrow> jsnum) \<Rightarrow> json \<Rightarrow> sync_input_note" where
  "to_input_note now coerce note =
     \<lparr>in_id = (case jstring (jget note ''id'') of Some s \<Rightarrow> s | None \<Rightarrow> []),
      in_markdown = (case jstring (jget note ''markdown'') of Some s \<Rightarrow> s | None \<Rightarrow> []),
      in_sourceName = jstring (jget note ''sourceName''),
      in_lastModified =
        (case jget note ''lastModified'' of
           Some (JNum n) \<Rightarrow> n
         | None \<Rightarrow> Integer now
         | Some JNull \<Rightarrow> Integer now
         | Some v \<Rightarrow> coerce v)\<rparr>"

definition valid_term :: "json \<Rightarrow> bool" where
  "valid_term item \<longleftrightarrow> jstring (jget item ''term'') \<noteq> None"

definition to_term :: "json \<Rightarrow> string \<times> string list" where
  "to_term item =
     (trim (case jstring (jget item ''term'') of Some s \<Rightarrow> s | None \<Rightarrow> []),
      (case jget item ''emails'' of
         Some (JArr es) \<Rightarrow>
           filter (\<lambda>email. includes_char email CHR ''@'')
             (map (\<lambda>email. case email of JStr s \<Rightarrow> toLowerCase (trim s) | _ \<Rightarrow> []) es)
       | _ \<Rightarrow> []))"

definition validTerms :: "json \<Rightarrow> (string \<times> string list) list" where
  "validTerms payload =
     filter (\<lambda>item. fst item \<noteq> [])
       (map to_term (filter valid_term (jarray (jget payload ''visibilityTerms''))))"

definition validNotes :: "int \<Rightarrow> (json \<Rightarrow> jsnum) \<Rightarrow> json \<Rightarrow> sync_input_note list" where
  "validNotes now coerce payload =
     map (to_input_note now coerce) (filter valid_note (jarray (jget payload ''notes'')))"

definition fromEntries :: "(string \<times> string list) list \<Rightarrow> jsobj" where
  \<comment> \<open>\<open>Object.fromEntries\<close>\<close>
  "fromEntries xs = foldl (\<lambda>obj (k, v). define_property obj k v) empty_obj xs"

text \<open>
  \<open>POST /api/notes\<close>: the status of the response and the store afterwards. \<open>user\<close> is
  the session user, \<open>None\<close> without a session; \<open>payload\<close> is \<open>None\<close> when the body is
  not JSON. A rejected statement is caught and answered with status 500; what follows the
  failing call in the handler does not run. \<open>order_notes\<close> and \<open>order_terms\<close> are the
  orders in which the statements of the two calls run. The listing that builds the
  response body reads the tables: it makes sure that the tables exist, changes no row, and
  its two statements, which have the owner id as their parameter, are rejected when that
  id contains U+0000.
\<close>

definition post_notes ::
    "(int \<Rightarrow> int) \<Rightarrow> nat list \<Rightarrow> nat list \<Rightarrow> int \<Rightarrow> int \<Rightarrow> (json \<Rightarrow> jsnum) \<Rightarrow>
     session_user option \<Rightarrow> json option \<Rightarrow> db \<Rightarrow> nat \<times> db" where
  "post_notes pr order_notes order_terms now sqlnow coerce user payload d =
     (case user of
        None \<Rightarrow> (401, d)
      | Some u \<Rightarrow>
          (case payload of
             None \<Rightarrow> (400, d)
           | Some p \<Rightarrow>
               (let vn = validNotes now coerce p;
                    r1 = (if vn \<noteq> []
                          then upsertNotesForUser pr order_notes now sqlnow (su_id u) (Some vn) d
                          else (None, d))
                in if fst r1 \<noteq> None then (500, snd r1)
                   else
                     (let vt = validTerms p;
                          r2 = (if vt \<noteq> []
                                then updateVisibilityTermsForUser order_terms sqlnow (su_id u)
                                       (fromEntries vt) (snd r1)
                                else (None, snd r1))
                      in if fst r2 \<noteq> None then (500, snd r2)
                         else if text_ok (su_id u) then (200, ensureNotesTable (snd r2))
                         else (500, ensureNotesTable (snd r2))))))"

subsection \<open>Shared notes\<close>

definition note_of_row :: "int \<Rightarrow> string \<Rightarrow> note_row \<Rightarrow> diaryx_note" where
  \<comment> \<open>the note built from a row; \<open>last_modified\<close> is a finite number for every row\<close>
  "note_of_row now fresh row =
     (parseDiaryxString now fresh (markdown row) (Some (row_id row)) (source_name row))
       \<lparr>lastModified := last_modified row, sourceName := source_name row\<rparr>"

fun shared_loop ::
    "int \<Rightarrow> string \<Rightarrow> string \<Rightarrow> note_row list \<Rightarrow> string set \<Rightarrow> diaryx_note list \<Rightarrow> diaryx_note list" where
  "shared_loop now fresh userEmail [] seen notes = notes"
| "shared_loop now fresh userEmail (row # rows) seen notes =
     (let note = note_of_row now fresh row in
      if \<not> hasSharedAccess note userEmail then shared_loop now fresh userEmail rows seen notes
      else if note_id note \<in> seen then shared_loop now fresh userEmail rows seen notes
      else shared_loop now fresh userEmail rows (insert (note_id note) seen) (notes @ [note]))"

text \<open>
  \<open>Array.prototype.sort\<close> is stable; with a consistent comparator its result is the
  stable sorted arrangement, which insertion from the right computes. \<open>localeCompare\<close>
  is the collation of the host, an input \<open>lc\<close> of the model.
\<close>

fun insort_cmp :: "('a \<Rightarrow> 'a \<Rightarrow> int) \<Rightarrow> 'a \<Rightarrow> 'a list \<Rightarrow> 'a list" where
  "insort_cmp cmp x [] = [x]"
| "insort_cmp cmp x (y # ys) = (if cmp x y \<le> 0 then x # y # ys else y # insort_cmp cmp x ys)"

definition js_sort :: "('a \<Rightarrow> 'a \<Rightarrow> int) \<Rightarrow> 'a list \<Rightarrow> 'a list" where
  "js_sort cmp xs = foldr (insort_cmp cmp) xs []"

definition compare_notes :: "(string \<Rightarrow> string \<Rightarrow> int) \<Rightarrow> diaryx_note \<Rightarrow> diaryx_note \<Rightarrow> int" where
  "compare_notes lc a b =
     (let diff = lastModified b - lastModified a in
      if diff \<noteq> 0 then diff else lc (note_id a) (note_id b))"

definition shared_notes ::
    "int \<Rightarrow> string \<Rightarrow> (string \<Rightarrow> string \<Rightarrow> int) \<Rightarrow> string \<Rightarrow> note_row list \<Rightarrow> diaryx_note list" where
  \<comment> \<open>the loop over the candidate rows and the final sort\<close>
  "shared_notes now fresh lc userEmail rows =
     js_sort (compare_notes lc) (shared_loop now fresh userEmail rows {} [])"

definition get_shared_notes ::
    "int \<Rightarrow> string \<Rightarrow> (string \<Rightarrow> string \<Rightarrow> int) \<Rightarrow> session_user option \<Rightarrow> db \<Rightarrow>
     (nat \<times> diaryx_note list) \<times> db" where
  \<comment> \<open>\<open>GET /api/shared-notes\<close>: status, notes of the response, store afterwards\<close>
  "get_shared_notes now fresh lc user d =
     (case user of
        None \<Rightarrow> ((401, []), d)
      | Some u \<Rightarrow>
          (let userEmail = (case su_email u of Some e \<Rightarrow> toLowerCase (trim e) | None \<Rightarrow> [])
           in if userEmail = [] then ((400, []), d)
              else (case listNotesSharedWithEmail userEmail d of
                      (rows, d1) \<Rightarrow> ((200, shared_notes now fresh lc userEmail rows), d1))))"

section \<open>Notions used in the statements\<close>

definition granted :: "int \<Rightarrow> string \<Rightarrow> string \<Rightarrow> note_row list \<Rightarrow> diaryx_note list" where
  \<comment> \<open>the notes of the candidate rows that pass the access check, in the order of the rows\<close>
  "granted now fresh userEmail rows =
     filter (\<lambda>note. hasSharedAccess note userEmail) (map (note_of_row now fresh) rows)"

fun first_by_id :: "string set \<Rightarrow> diaryx_note list \<Rightarrow> diaryx_note list" where
  \<comment> \<open>the first note of each id that is not in \<open>seen\<close>\<close>
  "first_by_id seen [] = []"
| "first_by_id seen (n # ns) =
     (if note_id n \<in> seen then first_by_id seen ns
      else n # first_by_id (insert (note_id n) seen) ns)"






definition term_record :: "int \<Rightarrow> string \<Rightarrow> string \<times> string list \<Rightarrow> term_row" where
  \<comment> \<open>the record stored for a submitted term\<close>
  "term_record sqlnow u te =
     \<lparr>term_user_id = u, term_name = fst te, emails = normalize_emails (snd te),
      term_updated_at = sqlnow\<rparr>"

definition sync_upsert :: "(int \<Rightarrow> int) \<Rightarrow> nat list \<Rightarrow> int \<Rightarrow> int \<Rightarrow> (json \<Rightarrow> jsnum) \<Rightarrow> session_user \<Rightarrow>
    json \<Rightarrow> db \<Rightarrow> store_error option \<times> db" where
  \<comment> \<open>the first step of the sync handler: the upsert of the valid notes, if there are any\<close>
  "sync_upsert pr order_notes now sqlnow coerce u p d =
     (if validNotes now coerce p \<noteq> []
      then upsertNotesForUser pr order_notes now sqlnow (su_id u) (Some (validNotes now coerce p)) d
      else (None, d))"

section \<open>Sample inputs\<close>

definition scenario_a :: string where
  "scenario_a = ''---\<newline>visibility: [friends]\<newline>---\<newline>Hello''"

definition scenario_a_listed :: string where
  \<comment> \<open>\<open>scenario_a\<close> with the email list of the term in its own frontmatter\<close>
  "scenario_a_listed =
     ''---\<newline>visibility: [friends]\<newline>visibility_emails:\<newline>  friends: [alice@x.com]\<newline>---\<newline>Hello''"

definition scenario_b :: string where
  "scenario_b =
     ''---\<newline>visibility:\<newline>  - friends\<newline>visibility_emails:\<newline>  friends:\<newline>    - alice@x.com\<newline>---\<newline>Body text''"

definition friends_alice :: jsobj where
  \<comment> \<open>\<open>{friends: ["alice@x.com"]}\<close>\<close>
  "friends_alice = \<lparr>entries = [(''friends'', [''alice@x.com''])], proto = None\<rparr>"

definition sample_collation :: "string \<Rightarrow> string \<Rightarrow> int" where
  \<comment> \<open>a collation for the examples: the order of the code units\<close>
  "sample_collation a b = (if a = b then 0 else if a < b then - 1 else 1)"

definition row_b :: note_row where
  "row_b = \<lparr>user_id = ''u1'', row_id = ''b'', markdown = scenario_a_listed, source_name = None,
            last_modified = 100, created_at = 1, updated_at = 1\<rparr>"

definition row_a :: note_row where
  "row_a = \<lparr>user_id = ''u2'', row_id = ''a'', markdown = scenario_a_listed, source_name = None,
            last_modified = 100, created_at = 2, updated_at = 2\<rparr>"

definition row_n1 :: note_row where
  \<comment> \<open>the note of scenario A as stored by its owner\<close>
  "row_n1 = \<lparr>user_id = ''u1'', row_id = ''n1'', markdown = scenario_a, source_name = None,
             last_modified = 100, created_at = 1, updated_at = 1\<rparr>"

definition friends_term :: term_row where
  \<comment> \<open>the owner's stored term \<open>friends\<close>, listing \<open>alice@x.com\<close>\<close>
  "friends_term = \<lparr>term_user_id = ''u1'', term_name = ''friends'', emails = [''alice@x.com''],
                   term_updated_at = 1\<rparr>"

definition sample_db :: db where
  "sample_db = \<lparr>diaryx_note = [row_n1], diaryx_visibility_term = [friends_term], ensured = True\<rparr>"

definition owner_u1 :: session_user where
  "owner_u1 = \<lparr>su_id = ''u1'', su_email = Some ''owner@x.com''\<rparr>"

definition viewer_alice :: session_user where
  "viewer_alice = \<lparr>su_id = ''u3'', su_email = Some ''alice@x.com''\<rparr>"

definition no_coercion :: "json \<Rightarrow> jsnum" where
  "no_coercion v = NotFinite"

definition printed_exact :: "int \<Rightarrow> int" where
  "printed_exact n = n"

definition payload_empty_terms :: json where
  \<comment> \<open>\<open>{"visibilityTerms": []}\<close>\<close>
  "payload_empty_terms = JObj [(''visibilityTerms'', JArr [])]"

definition payload_family :: json where
  \<comment> \<open>\<open>{"visibilityTerms": [{"term": " family ",
      "emails": [" Carol@X.com ", "carol@x.com", "dave", 7]}]}\<close>\<close>
  "payload_family =
     JObj [(''visibilityTerms'',
            JArr [JObj [(''term'', JStr '' family ''),
                        (''emails'', JArr [JStr '' Carol@X.com '', JStr ''carol@x.com'',
                                          JStr ''dave'', JNum (Integer 7)])]])]"

definition family_term :: term_row where
  "family_term = \<lparr>term_user_id = ''u1'', term_name = ''family'', emails = [''carol@x.com''],
                  term_updated_at = 9\<rparr>"


definition payload_rejected_note :: json where
  \<comment> \<open>\<open>{"notes": [{"id": "n2", "markdown": "x", "lastModified": 1e19}],
      "visibilityTerms": [{"term": "family", "emails": ["carol@x.com"]}]}\<close>\<close>
  "payload_rejected_note =
     JObj [(''notes'',
            JArr [JObj [(''id'', JStr ''n2''), (''markdown'', JStr ''x''),
                        (''lastModified'', JNum (Integer 10000000000000000000))]]),
           (''visibilityTerms'',
            JArr [JObj [(''term'', JStr ''family''),
                        (''emails'', JArr [JStr ''carol@x.com''])]])]"


definition row_plain :: note_row where
  \<comment> \<open>a note without frontmatter whose text mentions the viewer\<close>
  "row_plain = \<lparr>user_id = ''u1'', row_id = ''p1'', markdown = ''Hello alice@x.com'',
                source_name = None, last_modified = 5, created_at = 1, updated_at = 1\<rparr>"


subsection \<open>Characters and strings\<close>

lemma code_char_of: "n < 256 \<Longrightarrow> code (char_of n) = n"
  by (simp add: code_def)

lemma code_lower_char:
  "code (lower_char c) =
     (if (65 \<le> code c \<and> code c \<le> 90) \<or> (192 \<le> code c \<and> code c \<le> 222 \<and> code c \<noteq> 215)
      then code c + 32 else code c)"
proof (cases "(65 \<le> code c \<and> code c \<le> 90) \<or> (192 \<le> code c \<and> code c \<le> 222 \<and> code c \<noteq> 215)")
  case True
  then have "code c + 32 < 256" by arith
  from code_char_of[OF this] True show ?thesis by (simp only: lower_char_def if_True)
next
  case False
  then show ?thesis by (simp only: lower_char_def if_False)
qed

lemma char_eq_code: "c = d \<longleftrightarrow> code c = code d"
  by (simp add: code_def)


lemma is_space_lower_char: "is_space (lower_char c) \<longleftrightarrow> is_space c"
proof -
  define n where "n = code c"
  define m where "m = code (lower_char c)"
  have "m = (if (65 \<le> n \<and> n \<le> 90) \<or> (192 \<le> n \<and> n \<le> 222 \<and> n \<noteq> 215) then n + 32 else n)"
    unfolding m_def n_def by (rule code_lower_char)
  then have "((9 \<le> m \<and> m \<le> 13) \<or> m = 32 \<or> m = 160) \<longleftrightarrow> ((9 \<le> n \<and> n \<le> 13) \<or> n = 32 \<or> n = 160)"
    by (simp split: if_splits)
  then show ?thesis unfolding is_space_def m_def n_def .
qed

lemma lower_char_idem: "lower_char (lower_char c) = lower_char c"
proof -
  define n where "n = code c"
  define m where "m = code (lower_char c)"
  define k where "k = code (lower_char (lower_char c))"
  have 1: "m = (if (65 \<le> n \<and> n \<le> 90) \<or> (192 \<le> n \<and> n \<le> 222 \<and> n \<noteq> 215) then n + 32 else n)"
    unfolding m_def n_def by (rule code_lower_char)
  have 2: "k = (if (65 \<le> m \<and> m \<le> 90) \<or> (192 \<le> m \<and> m \<le> 222 \<and> m \<noteq> 215) then m + 32 else m)"
    unfolding m_def k_def by (rule code_lower_char)
  from 1 have "\<not> ((65 \<le> m \<and> m \<le> 90) \<or> (192 \<le> m \<and> m \<le> 222 \<and> m \<noteq> 215))"
    by (simp split: if_splits)
  with 2 have "k = m" by simp
  then show ?thesis unfolding k_def m_def by (simp only: char_eq_code)
qed

lemma lower_char_at: "lower_char c = CHR ''@'' \<longleftrightarrow> c = CHR ''@''"
proof -
  define n where "n = code c"
  define m where "m = code (lower_char c)"
  have 1: "m = (if (65 \<le> n \<and> n \<le> 90) \<or> (192 \<le> n \<and> n \<le> 222 \<and> n \<noteq> 215) then n + 32 else n)"
    unfolding m_def n_def by (rule code_lower_char)
  have at: "code CHR ''@'' = 64" by (simp add: code_def)
  from 1 have "m = 64 \<longleftrightarrow> n = 64" by (simp split: if_splits)
  then show ?thesis unfolding m_def n_def by (simp only: char_eq_code at)
qed

lemma dropWhile_keeps: "c \<in> set xs \<Longrightarrow> \<not> P c \<Longrightarrow> c \<in> set (dropWhile P xs)"
  by (induction xs) auto

lemma trim_keeps: "c \<in> set s \<Longrightarrow> \<not> is_space c \<Longrightarrow> c \<in> set (trim s)"
  by (simp add: trim_def trimEnd_def trimStart_def dropWhile_keeps)

lemma set_trim_subset: "set (trim s) \<subseteq> set s"
  unfolding trim_def trimEnd_def trimStart_def
  by (metis set_dropWhileD set_rev subsetI)

lemma trimStart_lower: "trimStart (toLowerCase s) = toLowerCase (trimStart s)"
  by (simp add: trimStart_def toLowerCase_def dropWhile_map comp_def is_space_lower_char)

lemma trimEnd_lower: "trimEnd (toLowerCase s) = toLowerCase (trimEnd s)"
  by (simp add: trimEnd_def toLowerCase_def dropWhile_map comp_def is_space_lower_char rev_map)

lemma trim_lower: "trim (toLowerCase s) = toLowerCase (trim s)"
  by (simp add: trim_def trimStart_lower trimEnd_lower)

lemma toLowerCase_idem: "toLowerCase (toLowerCase s) = toLowerCase s"
  by (simp add: toLowerCase_def lower_char_idem)

lemma trimEnd_idem: "trimEnd (trimEnd s) = trimEnd s"
  by (simp add: trimEnd_def)

lemma trimStart_trimEnd: "trimStart (trimEnd (trimStart s)) = trimEnd (trimStart s)"
proof (cases "trimStart s")
  case Nil
  then have "trimEnd (trimStart s) = []" by (simp add: trimEnd_def)
  then show ?thesis by (simp add: trimStart_def)
next
  case (Cons c cs)
  then have nc: "\<not> is_space c"
    unfolding trimStart_def by (metis hd_dropWhile list.distinct(1) list.sel(1))
  have "\<exists>ys. dropWhile is_space (rev cs @ [c]) = ys @ [c]"
    using nc by (cases "\<forall>x\<in>set (rev cs). is_space x") (auto simp: dropWhile_append)
  then obtain ys where "dropWhile is_space (rev cs @ [c]) = ys @ [c]" by blast
  then have "trimEnd (c # cs) = c # rev ys" by (simp add: trimEnd_def)
  with nc Cons show ?thesis by (simp add: trimStart_def)
qed

lemma trim_idem: "trim (trim s) = trim s"
  by (simp add: trim_def trimStart_trimEnd trimEnd_idem)

lemma at_not_space: "\<not> is_space CHR ''@''"
  by (simp add: is_space_def code_def)

lemma includes_at_normal:
  "includes_char (toLowerCase (trim s)) CHR ''@'' \<longleftrightarrow> includes_char s CHR ''@''"
proof
  assume "includes_char (toLowerCase (trim s)) CHR ''@''"
  then obtain c where "c \<in> set (trim s)" "lower_char c = CHR ''@''"
    by (auto simp: includes_char_def toLowerCase_def)
  then have "CHR ''@'' \<in> set (trim s)" by (simp add: lower_char_at)
  with set_trim_subset show "includes_char s CHR ''@''" by (auto simp: includes_char_def)
next
  assume "includes_char s CHR ''@''"
  then have "CHR ''@'' \<in> set (trim s)"
    by (simp add: includes_char_def trim_keeps at_not_space)
  then have "lower_char CHR ''@'' \<in> set (toLowerCase (trim s))"
    unfolding toLowerCase_def by simp
  then show "includes_char (toLowerCase (trim s)) CHR ''@''"
    by (simp add: includes_char_def lower_char_at[THEN iffD2])
qed

lemma set_dedupe: "set (dedupe xs) = set xs"
  by (simp add: dedupe_def)

lemma distinct_dedupe: "distinct (dedupe xs)"
  by (simp add: dedupe_def)

lemma normalize_emails_normal:
  assumes "\<forall>e\<in>set es. includes_char e CHR ''@''"
  shows "distinct (normalize_emails es) \<and> (\<forall>e\<in>set (normalize_emails es). e \<noteq> [] \<and> trim e = e \<and> toLowerCase e = e \<and> includes_char e CHR ''@'')"
proof -
  have "trim (toLowerCase (trim e)) = toLowerCase (trim e) \<and>
        toLowerCase (toLowerCase (trim e)) = toLowerCase (trim e) \<and>
        includes_char (toLowerCase (trim e)) CHR ''@''" if "e \<in> set es" for e
    using that assms
    by (simp add: trim_lower trim_idem toLowerCase_idem includes_at_normal)
  then show ?thesis
    by (auto simp: normalize_emails_def set_dedupe distinct_dedupe)
qed

subsection \<open>The matcher\<close>



declare rx.simps [simp del]













subsection \<open>The store\<close>

lemma mset_scheduled: "mset (scheduled order xs) = mset xs"
proof (cases "sort order = [0..<length xs]")
  case True
  have "mset order = mset (sort order)" by simp
  also have "\<dots> = mset [0..<length xs]" by (simp only: True)
  finally have "image_mset (\<lambda>k. xs ! k) (mset order) = mset (map (\<lambda>k. xs ! k) [0..<length xs])"
    by simp
  then have "mset (map (\<lambda>k. xs ! k) order) = mset xs" by (simp add: map_nth)
  with True show ?thesis by (simp add: scheduled_def)
next
  case False
  then show ?thesis by (simp add: scheduled_def)
qed

lemma set_scheduled: "set (scheduled order xs) = set xs"
  using mset_scheduled[of order xs] by (rule mset_eq_setD)


lemma scheduled_Nil: "scheduled order [] = []"
  using set_scheduled[of order "[]"] by simp

lemma scheduled_map: "scheduled order (map f xs) = map f (scheduled order xs)"
proof (cases "sort order = [0..<length xs]")
  case True
  have "set order = set (sort order)" by simp
  also have "\<dots> = {0..<length xs}" by (simp only: True) simp
  finally have "\<forall>k\<in>set order. k < length xs" by simp
  then have "map (\<lambda>k. map f xs ! k) order = map f (map (\<lambda>k. xs ! k) order)" by simp
  with True show ?thesis by (simp add: scheduled_def)
next
  case False
  then show ?thesis by (simp add: scheduled_def)
qed

lemma run_all_error_kept: "fst (run_all q xs r) = None \<Longrightarrow> fst r = None"
proof (induction xs arbitrary: r)
  case Nil
  then show ?case by simp
next
  case (Cons x xs)
  obtain e s where q: "q (snd r) x = (e, s)" by (cases "q (snd r) x")
  with Cons.prems have "fst (run_all q xs (first_error (fst r) e, s)) = None" by simp
  from Cons.IH[OF this] have "first_error (fst r) e = None" by simp
  then show ?case by (cases "fst r") (simp_all add: first_error_def)
qed

lemma terms_ensure [simp]: "diaryx_visibility_term (ensureNotesTable d) = diaryx_visibility_term d"
  by (simp add: ensureNotesTable_def)

lemma notes_ensure [simp]: "diaryx_note (ensureNotesTable d) = diaryx_note d"
  by (simp add: ensureNotesTable_def)

lemma fst_upsert_query:
  "fst (upsert_query pr now sqlnow u d n) =
     (case bind_note pr now u n of Inl e \<Rightarrow> Some e | Inr t \<Rightarrow> None)"
  by (simp add: upsert_query_def split: sum.splits)

lemma terms_upsert_query [simp]:
  "diaryx_visibility_term (snd (upsert_query pr now sqlnow u d n)) = diaryx_visibility_term d"
  by (simp add: upsert_query_def split: sum.splits)

lemma terms_run_upserts [simp]:
  "diaryx_visibility_term (snd (run_all (upsert_query pr now sqlnow u) ns r)) =
   diaryx_visibility_term (snd r)"
  by (induction ns arbitrary: r) (simp_all split: prod.splits, metis snd_conv terms_upsert_query)

lemma terms_upsertNotesForUser [simp]:
  "diaryx_visibility_term (snd (upsertNotesForUser pr order now sqlnow u ns d)) =
   diaryx_visibility_term d"
  by (simp add: upsertNotesForUser_def await_all_def split: option.splits)

lemma fst_run_upserts:
  "fst (run_all (upsert_query pr now sqlnow u) ns r) = None \<longleftrightarrow>
     fst r = None \<and> (\<forall>n\<in>set ns. \<exists>t. bind_note pr now u n = Inr t)"
proof (induction ns arbitrary: r)
  case Nil
  show ?case by simp
next
  case (Cons n ns)
  obtain e s where q: "upsert_query pr now sqlnow u (snd r) n = (e, s)"
    by (cases "upsert_query pr now sqlnow u (snd r) n")
  from q fst_upsert_query[of pr now sqlnow u "snd r" n]
  have e: "e = (case bind_note pr now u n of Inl e \<Rightarrow> Some e | Inr t \<Rightarrow> None)" by simp
  show ?case
    using Cons[of "(first_error (fst r) e, s)"] q e
    by (cases "fst r"; cases "bind_note pr now u n") (simp_all add: first_error_def)
qed
















lemma fst_upsertNotesForUser:
  "fst (upsertNotesForUser pr order now sqlnow u (Some ns) d) = None \<longleftrightarrow>
     (\<forall>n\<in>set ns. \<exists>t. bind_note pr now u n = Inr t)"
  by (simp add: upsertNotesForUser_def await_all_def fst_run_upserts set_scheduled)


subsection \<open>Visibility terms\<close>

lemma set_run_inserts:
  "set (diaryx_visibility_term (snd (run_all (insert_term sqlnow u) tes r))) \<subseteq>
     set (diaryx_visibility_term (snd r)) \<union>
     (\<lambda>te. \<lparr>term_user_id = u, term_name = fst te, emails = snd te, term_updated_at = sqlnow\<rparr>) ` set tes"
proof (induction tes arbitrary: r)
  case Nil
  show ?case by simp
next
  case (Cons te tes)
  obtain e s where q: "insert_term sqlnow u (snd r) te = (e, s)"
    by (cases "insert_term sqlnow u (snd r) te")
  then have "set (diaryx_visibility_term s) \<subseteq> set (diaryx_visibility_term (snd r)) \<union>
      {\<lparr>term_user_id = u, term_name = fst te, emails = snd te, term_updated_at = sqlnow\<rparr>}"
    by (auto simp: insert_term_def split: if_splits)
  with Cons[of "(first_error (fst r) e, s)"] q show ?case by auto
qed

lemma run_inserts_ok:
  assumes "fst (run_all (insert_term sqlnow u) tes r) = None"
  shows "diaryx_visibility_term (snd (run_all (insert_term sqlnow u) tes r)) =
     diaryx_visibility_term (snd r) @
     map (\<lambda>te. \<lparr>term_user_id = u, term_name = fst te, emails = snd te, term_updated_at = sqlnow\<rparr>) tes"
  using assms
proof (induction tes arbitrary: r)
  case Nil
  show ?case by simp
next
  case (Cons te tes)
  obtain e s where q: "insert_term sqlnow u (snd r) te = (e, s)"
    by (cases "insert_term sqlnow u (snd r) te")
  from Cons.prems q have rest: "fst (run_all (insert_term sqlnow u) tes (first_error (fst r) e, s)) = None"
    by simp
  from run_all_error_kept[OF rest] have "first_error (fst r) e = None" by simp
  then have "e = None" by (cases "fst r") (simp_all add: first_error_def)
  with q have s: "diaryx_visibility_term s = diaryx_visibility_term (snd r) @
      [\<lparr>term_user_id = u, term_name = fst te, emails = snd te, term_updated_at = sqlnow\<rparr>]"
    by (auto simp: insert_term_def split: if_splits)
  from Cons.IH[OF rest] q s show ?case by simp
qed

lemma term_record_entries:
  "map (\<lambda>te. \<lparr>term_user_id = u, term_name = fst te, emails = snd te, term_updated_at = sqlnow\<rparr>)
     (map (\<lambda>(t, es). (t, normalize_emails es)) tes) = map (term_record sqlnow u) tes"
  by (simp add: term_record_def case_prod_beta)

lemma terms_update_subset:
  "set (diaryx_visibility_term (snd (updateVisibilityTermsForUser order sqlnow u terms d))) \<subseteq>
     set (diaryx_visibility_term d) \<union> term_record sqlnow u ` set (entries terms)"
proof -
  let ?tes = "map (\<lambda>(t, es). (t, normalize_emails es)) (entries terms)"
  let ?d2 = "(ensureNotesTable d)\<lparr>diaryx_visibility_term :=
      filter (\<lambda>r. term_user_id r \<noteq> u) (diaryx_visibility_term (ensureNotesTable d))\<rparr>"
  have img: "(\<lambda>te. \<lparr>term_user_id = u, term_name = fst te, emails = snd te, term_updated_at = sqlnow\<rparr>) `
      set (scheduled order ?tes) = term_record sqlnow u ` set (entries terms)"
    by (simp add: set_scheduled image_image term_record_def case_prod_beta)
  from set_run_inserts[of sqlnow u "scheduled order ?tes" "(None, ?d2)"] img
  have "set (diaryx_visibility_term (snd (run_all (insert_term sqlnow u) (scheduled order ?tes) (None, ?d2)))) \<subseteq>
      set (diaryx_visibility_term d) \<union> term_record sqlnow u ` set (entries terms)"
    by auto
  then show ?thesis
    by (auto simp: updateVisibilityTermsForUser_def Let_def await_all_def)
qed

lemma terms_update_ok:
  assumes "fst (updateVisibilityTermsForUser order sqlnow u terms d) = None"
  shows "diaryx_visibility_term (snd (updateVisibilityTermsForUser order sqlnow u terms d)) =
     filter (\<lambda>r. term_user_id r \<noteq> u) (diaryx_visibility_term d) @
     map (term_record sqlnow u) (scheduled order (entries terms))"
proof -
  let ?tes = "map (\<lambda>(t, es). (t, normalize_emails es)) (entries terms)"
  have sched_map: "scheduled order ?tes = map (\<lambda>(t, es). (t, normalize_emails es)) (scheduled order (entries terms))"
    by (rule scheduled_map)
  show ?thesis
  proof (cases "entries terms = []")
    case True
    with assms show ?thesis
      by (simp add: updateVisibilityTermsForUser_def Let_def scheduled_Nil split: if_splits)
  next
    case False
    with assms have ok: "text_ok u" and
      run: "fst (run_all (insert_term sqlnow u) (scheduled order ?tes)
          (None, (ensureNotesTable d)\<lparr>diaryx_visibility_term :=
             filter (\<lambda>r. term_user_id r \<noteq> u) (diaryx_visibility_term (ensureNotesTable d))\<rparr>)) = None"
      by (auto simp: updateVisibilityTermsForUser_def Let_def await_all_def split: if_splits)
    from run_inserts_ok[OF run] ok False show ?thesis
      by (simp add: updateVisibilityTermsForUser_def Let_def await_all_def sched_map
            term_record_def case_prod_beta)
  qed
qed

lemma terms_update_failed_delete:
  "\<not> text_ok u \<Longrightarrow>
     diaryx_visibility_term (snd (updateVisibilityTermsForUser order sqlnow u terms d)) =
     diaryx_visibility_term d"
  by (simp add: updateVisibilityTermsForUser_def Let_def)

subsection \<open>Objects built from entries\<close>

lemma set_alist_update: "set (AList.update k v al) \<subseteq> insert (k, v) (set al)"
  by (induction al) auto

lemma set_insert_index: "set (insert_index k v es) = insert (k, v) (set es)"
  by (induction es) (auto split: if_splits)

lemma set_define_property:
  "set (entries (define_property obj k v)) \<subseteq> insert (k, v) (set (entries obj))"
  using set_alist_update[of k v "entries obj"]
  by (auto simp: define_property_def set_insert_index)

lemma set_foldl_define:
  "set (entries (foldl (\<lambda>obj (k, v). define_property obj k v) obj xs)) \<subseteq> set (entries obj) \<union> set xs"
proof (induction xs arbitrary: obj)
  case Nil
  show ?case by simp
next
  case (Cons x xs)
  obtain k v where x: "x = (k, v)" by (cases x)
  from Cons[of "define_property obj k v"] set_define_property[of obj k v]
  show ?case by (auto simp: x)
qed

lemma set_fromEntries: "set (entries (fromEntries xs)) \<subseteq> set xs"
  using set_foldl_define[of empty_obj xs] by (simp add: fromEntries_def empty_obj_def)

lemma validTerms_at: "(t, es) \<in> set (validTerms p) \<Longrightarrow> \<forall>e\<in>set es. includes_char e CHR ''@''"
  by (auto simp: validTerms_def to_term_def split: option.splits json.splits)

lemma normalize_emails_shape:
  "distinct (normalize_emails es) \<and>
   (\<forall>e\<in>set (normalize_emails es). e \<noteq> [] \<and> trim e = e \<and> toLowerCase e = e)"
  by (auto simp: normalize_emails_def set_dedupe distinct_dedupe trim_lower trim_idem toLowerCase_idem)

subsection \<open>One note of an id\<close>






subsection \<open>The sync handler\<close>

lemma run_inserts_shape:
  "\<exists>new. set new \<subseteq>
       (\<lambda>te. \<lparr>term_user_id = u, term_name = fst te, emails = snd te, term_updated_at = sqlnow\<rparr>) ` set tes \<and>
     diaryx_visibility_term (snd (run_all (insert_term sqlnow u) tes r)) =
     diaryx_visibility_term (snd r) @ new"
proof (induction tes arbitrary: r)
  case Nil
  show ?case by simp
next
  case (Cons te tes)
  let ?mk = "\<lambda>te. \<lparr>term_user_id = u, term_name = fst te, emails = snd te, term_updated_at = sqlnow\<rparr>"
  obtain e s where q: "insert_term sqlnow u (snd r) te = (e, s)"
    by (cases "insert_term sqlnow u (snd r) te")
  then have "diaryx_visibility_term s = diaryx_visibility_term (snd r) \<or>
      diaryx_visibility_term s = diaryx_visibility_term (snd r) @ [?mk te]"
    by (auto simp: insert_term_def split: if_splits)
  then obtain one where one: "set one \<subseteq> {?mk te}"
    "diaryx_visibility_term s = diaryx_visibility_term (snd r) @ one"
  proof
    assume "diaryx_visibility_term s = diaryx_visibility_term (snd r)"
    then have "set [] \<subseteq> {?mk te} \<and> diaryx_visibility_term s = diaryx_visibility_term (snd r) @ []"
      by simp
    then show ?thesis using that by blast
  next
    assume "diaryx_visibility_term s = diaryx_visibility_term (snd r) @ [?mk te]"
    then have "set [?mk te] \<subseteq> {?mk te} \<and>
        diaryx_visibility_term s = diaryx_visibility_term (snd r) @ [?mk te]"
      by simp
    then show ?thesis using that by blast
  qed
  from Cons[of "(first_error (fst r) e, s)"] obtain new where new: "set new \<subseteq> ?mk ` set tes"
    "diaryx_visibility_term (snd (run_all (insert_term sqlnow u) tes (first_error (fst r) e, s))) =
     diaryx_visibility_term s @ new"
    by auto
  from one new q have "set (one @ new) \<subseteq> ?mk ` set (te # tes) \<and>
      diaryx_visibility_term (snd (run_all (insert_term sqlnow u) (te # tes) r)) =
      diaryx_visibility_term (snd r) @ (one @ new)"
    by auto
  then show ?case by blast
qed

lemma terms_update_shape:
  "diaryx_visibility_term (snd (updateVisibilityTermsForUser order sqlnow u terms d)) =
     diaryx_visibility_term d \<or>
   (\<exists>new. set new \<subseteq> term_record sqlnow u ` set (entries terms) \<and>
      diaryx_visibility_term (snd (updateVisibilityTermsForUser order sqlnow u terms d)) =
      filter (\<lambda>r. term_user_id r \<noteq> u) (diaryx_visibility_term d) @ new)"
proof (cases "text_ok u")
  case False
  then show ?thesis by (simp add: terms_update_failed_delete)
next
  case True
  let ?tes = "map (\<lambda>(t, es). (t, normalize_emails es)) (entries terms)"
  let ?d2 = "(ensureNotesTable d)\<lparr>diaryx_visibility_term :=
      filter (\<lambda>r. term_user_id r \<noteq> u) (diaryx_visibility_term (ensureNotesTable d))\<rparr>"
  have img: "(\<lambda>te. \<lparr>term_user_id = u, term_name = fst te, emails = snd te, term_updated_at = sqlnow\<rparr>) `
      set (scheduled order ?tes) = term_record sqlnow u ` set (entries terms)"
    by (simp add: set_scheduled image_image term_record_def case_prod_beta)
  from run_inserts_shape[of u sqlnow "scheduled order ?tes" "(None, ?d2)"] img
  obtain new where new: "set new \<subseteq> term_record sqlnow u ` set (entries terms)"
    "diaryx_visibility_term (snd (run_all (insert_term sqlnow u) (scheduled order ?tes) (None, ?d2))) =
     filter (\<lambda>r. term_user_id r \<noteq> u) (diaryx_visibility_term d) @ new"
    by auto
  show ?thesis
  proof (cases "entries terms = []")
    case True
    with \<open>text_ok u\<close> have "set [] \<subseteq> term_record sqlnow u ` set (entries terms) \<and>
      diaryx_visibility_term (snd (updateVisibilityTermsForUser order sqlnow u terms d)) =
      filter (\<lambda>r. term_user_id r \<noteq> u) (diaryx_visibility_term d) @ []"
      by (simp add: updateVisibilityTermsForUser_def Let_def)
    then show ?thesis by blast
  next
    case False
    with \<open>text_ok u\<close> new have "set new \<subseteq> term_record sqlnow u ` set (entries terms) \<and>
      diaryx_visibility_term (snd (updateVisibilityTermsForUser order sqlnow u terms d)) =
      filter (\<lambda>r. term_user_id r \<noteq> u) (diaryx_visibility_term d) @ new"
      by (simp add: updateVisibilityTermsForUser_def Let_def await_all_def)
    then show ?thesis by blast
  qed
qed

lemma term_record_user [simp]: "term_user_id (term_record sqlnow u te) = u"
  by (simp add: term_record_def)

lemma filter_owner_new:
  "set new \<subseteq> term_record sqlnow u ` X \<Longrightarrow>
     filter (\<lambda>r. term_user_id r = u) (filter (\<lambda>r. term_user_id r \<noteq> u) old @ new) = new"
proof (induction new)
  case Nil
  show ?case by (induction old) auto
next
  case (Cons a new)
  then have "term_user_id a = u" by auto
  moreover have "filter (\<lambda>r. term_user_id r = u) (filter (\<lambda>r. term_user_id r \<noteq> u) old) = []"
    by (induction old) auto
  moreover from Cons have "\<forall>r\<in>set new. term_user_id r = u" by auto
  ultimately show ?case by simp
qed

lemma filter_others_new:
  "set new \<subseteq> term_record sqlnow u ` X \<Longrightarrow>
     filter (\<lambda>r. term_user_id r \<noteq> u) (filter (\<lambda>r. term_user_id r \<noteq> u) old @ new) =
     filter (\<lambda>r. term_user_id r \<noteq> u) old"
proof -
  assume "set new \<subseteq> term_record sqlnow u ` X"
  then have "\<forall>r\<in>set new. term_user_id r = u" by auto
  then have "filter (\<lambda>r. term_user_id r \<noteq> u) new = []" by (induction new) auto
  then show ?thesis by simp
qed

lemma terms_sync_upsert [simp]:
  "diaryx_visibility_term (snd (sync_upsert pr order_notes now sqlnow coerce u p d)) =
   diaryx_visibility_term d"
  by (simp add: sync_upsert_def)

lemma fst_sync_upsert:
  "fst (sync_upsert pr order_notes now sqlnow coerce u p d) = None \<longleftrightarrow>
     (\<forall>n\<in>set (validNotes now coerce p). \<exists>t. bind_note pr now (su_id u) n = Inr t)"
  by (simp add: sync_upsert_def fst_upsertNotesForUser)

lemma post_notes_unfold:
  "post_notes pr order_notes order_terms now sqlnow coerce (Some u) (Some p) d =
     (let r1 = sync_upsert pr order_notes now sqlnow coerce u p d in
      if fst r1 \<noteq> None then (500, snd r1)
      else if validTerms p = []
      then (if text_ok (su_id u) then 200 else 500, ensureNotesTable (snd r1))
      else
        (let r2 = updateVisibilityTermsForUser order_terms sqlnow (su_id u)
                    (fromEntries (validTerms p)) (snd r1)
         in if fst r2 \<noteq> None then (500, snd r2)
            else (if text_ok (su_id u) then 200 else 500, ensureNotesTable (snd r2))))"
  by (simp add: post_notes_def sync_upsert_def Let_def)

lemma terms_post_notes_cases:
  "diaryx_visibility_term (snd (post_notes pr order_notes order_terms now sqlnow coerce (Some u) (Some p) d)) =
     diaryx_visibility_term d \<or>
   (validTerms p \<noteq> [] \<and>
    (\<forall>n\<in>set (validNotes now coerce p). \<exists>t. bind_note pr now (su_id u) n = Inr t) \<and>
    (\<exists>new. set new \<subseteq> term_record sqlnow (su_id u) ` set (entries (fromEntries (validTerms p))) \<and>
       diaryx_visibility_term
         (snd (post_notes pr order_notes order_terms now sqlnow coerce (Some u) (Some p) d)) =
       filter (\<lambda>r. term_user_id r \<noteq> su_id u) (diaryx_visibility_term d) @ new))"
proof -
  let ?r1 = "sync_upsert pr order_notes now sqlnow coerce u p d"
  show ?thesis
  proof (cases "fst ?r1 \<noteq> None \<or> validTerms p = []")
    case True
    then show ?thesis by (auto simp: post_notes_unfold Let_def)
  next
    case False
    then have ok: "fst ?r1 = None" "validTerms p \<noteq> []" by auto
    from terms_update_shape[of order_terms sqlnow "su_id u" "fromEntries (validTerms p)" "snd ?r1"]
    show ?thesis using ok fst_sync_upsert[of pr order_notes now sqlnow coerce u p d]
      by (auto simp: post_notes_unfold Let_def)
  qed
qed

lemma terms_post_notes_ok:
  assumes "validTerms p \<noteq> []"
    and "fst (post_notes pr order_notes order_terms now sqlnow coerce (Some u) (Some p) d) = 200"
  shows "diaryx_visibility_term
           (snd (post_notes pr order_notes order_terms now sqlnow coerce (Some u) (Some p) d)) =
         filter (\<lambda>r. term_user_id r \<noteq> su_id u) (diaryx_visibility_term d) @
         map (term_record sqlnow (su_id u))
           (scheduled order_terms (entries (fromEntries (validTerms p))))"
proof -
  let ?r1 = "sync_upsert pr order_notes now sqlnow coerce u p d"
  let ?r2 = "updateVisibilityTermsForUser order_terms sqlnow (su_id u)
               (fromEntries (validTerms p)) (snd ?r1)"
  from assms have ok: "fst ?r1 = None" "fst ?r2 = None"
    by (auto simp: post_notes_unfold Let_def split: if_splits)
  from terms_update_ok[OF ok(2)] assms(1) ok show ?thesis
    by (simp add: post_notes_unfold Let_def)
qed

lemma terms_post_notes_rejected:
  assumes "\<exists>n\<in>set (validNotes now coerce p). \<exists>e. bind_note pr now (su_id u) n = Inl e"
  shows "post_notes pr order_notes order_terms now sqlnow coerce (Some u) (Some p) d =
         (500, snd (sync_upsert pr order_notes now sqlnow coerce u p d))"
proof -
  from assms obtain n e where n: "n \<in> set (validNotes now coerce p)"
    "bind_note pr now (su_id u) n = Inl e"
    by blast
  then have "\<not> (\<exists>t. bind_note pr now (su_id u) n = Inr t)" by simp
  with n(1) have "\<not> (\<forall>n\<in>set (validNotes now coerce p). \<exists>t. bind_note pr now (su_id u) n = Inr t)"
    by blast
  then have "fst (sync_upsert pr order_notes now sqlnow coerce u p d) \<noteq> None"
    by (simp only: fst_sync_upsert not_False_eq_True)
  then show ?thesis by (simp add: post_notes_unfold Let_def)
qed

lemma fst_run_inserts:
  "fst (run_all (insert_term sqlnow u) tes r) = None \<longleftrightarrow>
     fst r = None \<and>
     (\<forall>te\<in>set tes. text_ok u \<and> text_ok (fst te) \<and> list_all text_ok (snd te))"
proof (induction tes arbitrary: r)
  case Nil
  show ?case by simp
next
  case (Cons te tes)
  obtain e s where q: "insert_term sqlnow u (snd r) te = (e, s)"
    by (cases "insert_term sqlnow u (snd r) te")
  then have e: "e = None \<longleftrightarrow> text_ok u \<and> text_ok (fst te) \<and> list_all text_ok (snd te)"
    by (auto simp: insert_term_def split: if_splits)
  show ?case
    using Cons[of "(first_error (fst r) e, s)"] q e
    by (cases "fst r"; cases e) (auto simp: first_error_def)
qed

lemma fst_updateVisibilityTermsForUser:
  "fst (updateVisibilityTermsForUser order sqlnow u terms d) = None \<longleftrightarrow>
     text_ok u \<and>
     (\<forall>te\<in>set (entries terms). text_ok (fst te) \<and> list_all text_ok (normalize_emails (snd te)))"
proof (cases "text_ok u")
  case False
  then show ?thesis by (simp add: updateVisibilityTermsForUser_def Let_def)
next
  case True
  show ?thesis
  proof (cases "entries terms = []")
    case empty: True
    with True show ?thesis by (simp add: updateVisibilityTermsForUser_def Let_def)
  next
    case False
    with True show ?thesis
      by (simp add: updateVisibilityTermsForUser_def Let_def await_all_def fst_run_inserts
          set_scheduled case_prod_beta)
  qed
qed

lemma status_post_notes:
  "fst (post_notes pr order_notes order_terms now sqlnow coerce (Some u) (Some p) d) = 200 \<longleftrightarrow>
     (\<forall>n\<in>set (validNotes now coerce p). \<exists>t. bind_note pr now (su_id u) n = Inr t) \<and>
     text_ok (su_id u) \<and>
     (validTerms p = [] \<or>
      (\<forall>te\<in>set (entries (fromEntries (validTerms p))).
         text_ok (fst te) \<and> list_all text_ok (normalize_emails (snd te))))"
proof -
  let ?r1 = "sync_upsert pr order_notes now sqlnow coerce u p d"
  let ?r2 = "updateVisibilityTermsForUser order_terms sqlnow (su_id u)
               (fromEntries (validTerms p)) (snd ?r1)"
  have "fst (post_notes pr order_notes order_terms now sqlnow coerce (Some u) (Some p) d) = 200 \<longleftrightarrow>
      fst ?r1 = None \<and> text_ok (su_id u) \<and> (validTerms p = [] \<or> fst ?r2 = None)"
    by (simp add: post_notes_unfold Let_def)
  then show ?thesis
    by (auto simp only: fst_sync_upsert fst_updateVisibilityTermsForUser)
qed

subsection \<open>Shared-note discovery\<close>

lemma shared_loop_first_by_id:
  "shared_loop now fresh e rows seen acc = acc @ first_by_id seen (granted now fresh e rows)"
  by (induction rows arbitrary: seen acc) (simp_all add: granted_def Let_def)

lemma first_by_id_subset: "set (first_by_id seen ns) \<subseteq> set ns"
  by (induction ns arbitrary: seen) auto

lemma first_by_id_unseen: "n \<in> set (first_by_id seen ns) \<Longrightarrow> note_id n \<notin> seen"
  by (induction ns arbitrary: seen) (auto split: if_splits)

lemma first_by_id_distinct: "distinct (map note_id (first_by_id seen ns))"
  by (induction ns arbitrary: seen) (auto dest: first_by_id_unseen)

lemma first_by_id_ids: "note_id ` set (first_by_id seen ns) = note_id ` set ns - seen"
  by (induction ns arbitrary: seen) auto

lemma first_by_id_first:
  "n \<in> set (first_by_id seen ns) \<Longrightarrow>
   \<exists>pre post. ns = pre @ n # post \<and> note_id n \<notin> note_id ` set pre"
proof (induction ns arbitrary: seen)
  case Nil
  then show ?case by simp
next
  case (Cons a ns)
  show ?case
  proof (cases "n = a")
    case True
    then have "a # ns = [] @ n # ns \<and> note_id n \<notin> note_id ` set []" by simp
    then show ?thesis by blast
  next
    case False
    show ?thesis
    proof (cases "note_id a \<in> seen")
      case True
      with Cons.prems have mem: "n \<in> set (first_by_id seen ns)" by simp
      from first_by_id_unseen[OF mem] True have ne: "note_id n \<noteq> note_id a" by auto
      from Cons.IH[OF mem] obtain pre post
        where "ns = pre @ n # post" "note_id n \<notin> note_id ` set pre" by blast
      with ne have "a # ns = (a # pre) @ n # post \<and> note_id n \<notin> note_id ` set (a # pre)" by simp
      then show ?thesis by blast
    next
      case notseen: False
      with Cons.prems False have mem: "n \<in> set (first_by_id (insert (note_id a) seen) ns)" by simp
      from first_by_id_unseen[OF mem] have ne: "note_id n \<noteq> note_id a" by auto
      from Cons.IH[OF mem] obtain pre post
        where "ns = pre @ n # post" "note_id n \<notin> note_id ` set pre" by blast
      with ne have "a # ns = (a # pre) @ n # post \<and> note_id n \<notin> note_id ` set (a # pre)" by simp
      then show ?thesis by blast
    qed
  qed
qed

lemma set_insort_cmp: "set (insort_cmp cmp x ys) = insert x (set ys)"
  by (induction ys) auto

lemma set_js_sort: "set (js_sort cmp xs) = set xs"
  unfolding js_sort_def by (induction xs) (simp_all add: set_insort_cmp)

lemma distinct_map_insort_cmp:
  "distinct (map f (insort_cmp cmp x ys)) \<longleftrightarrow> f x \<notin> f ` set ys \<and> distinct (map f ys)"
  by (induction ys) (auto simp: set_insort_cmp)

lemma distinct_map_js_sort: "distinct (map f (js_sort cmp xs)) \<longleftrightarrow> distinct (map f xs)"
  unfolding js_sort_def
proof (induction xs)
  case Nil
  show ?case by simp
next
  case (Cons x xs)
  have "set (foldr (insort_cmp cmp) xs []) = set xs"
    using set_js_sort[of cmp xs] by (simp add: js_sort_def)
  with Cons show ?case by (simp add: distinct_map_insort_cmp)
qed

lemma sorted_insort_cmp:
  assumes total: "\<And>a b. cmp a b \<le> 0 \<or> cmp b a \<le> 0"
    and trans: "\<And>a b c. cmp a b \<le> 0 \<Longrightarrow> cmp b c \<le> 0 \<Longrightarrow> cmp a c \<le> 0"
  shows "sorted_wrt (\<lambda>a b. cmp a b \<le> 0) ys \<Longrightarrow> sorted_wrt (\<lambda>a b. cmp a b \<le> 0) (insort_cmp cmp x ys)"
proof (induction ys)
  case Nil
  show ?case by simp
next
  case (Cons y ys)
  show ?case
  proof (cases "cmp x y \<le> 0")
    case True
    have "\<forall>z\<in>set ys. cmp x z \<le> 0" using True Cons.prems trans by auto
    with True Cons.prems show ?thesis by simp
  next
    case False
    then have "cmp y x \<le> 0" using total[of x y] by simp
    with False Cons show ?thesis by (auto simp: set_insort_cmp)
  qed
qed

lemma sorted_js_sort:
  assumes total: "\<And>a b. cmp a b \<le> 0 \<or> cmp b a \<le> 0"
    and trans: "\<And>a b c. cmp a b \<le> 0 \<Longrightarrow> cmp b c \<le> 0 \<Longrightarrow> cmp a c \<le> 0"
  shows "sorted_wrt (\<lambda>a b. cmp a b \<le> 0) (js_sort cmp xs)"
  unfolding js_sort_def
  by (induction xs) (simp_all add: sorted_insort_cmp[OF total trans])

lemma compare_notes_le:
  "compare_notes lc a b \<le> 0 \<longleftrightarrow>
     lastModified b < lastModified a \<or>
     (lastModified a = lastModified b \<and> lc (note_id a) (note_id b) \<le> 0)"
  by (auto simp: compare_notes_def Let_def)

lemma shared_notes_granted: "set (shared_notes now fresh lc e rows) \<subseteq> set (granted now fresh e rows)"
  by (simp add: shared_notes_def set_js_sort shared_loop_first_by_id first_by_id_subset)

lemma shared_notes_access: "n \<in> set (shared_notes now fresh lc e rows) \<Longrightarrow> hasSharedAccess n e"
  using shared_notes_granted[of now fresh lc e rows] by (auto simp: granted_def)

subsection \<open>The handlers\<close>

lemma get_shared_notes_access:
  "n \<in> set (snd (fst (get_shared_notes now fresh lc user d))) \<Longrightarrow> \<exists>e. hasSharedAccess n e"
  by (auto simp: get_shared_notes_def Let_def split: option.splits if_splits prod.splits
           dest: shared_notes_access)

lemma get_shared_notes_frame:
  "fst (get_shared_notes now fresh lc user (d\<lparr>diaryx_visibility_term := ts\<rparr>)) =
   fst (get_shared_notes now fresh lc user d)"
  by (simp add: get_shared_notes_def listNotesSharedWithEmail_def ensureNotesTable_def Let_def
           split: option.splits)

lemma terms_loop_empty: "\<not> terms_loop empty_obj empty_obj e ts"
  by (induction ts) (simp_all add: Let_def obj_get_def empty_obj_def lists_email_def)

lemma normalize_map_empty: "normalize_map empty_obj = empty_obj"
  by (simp add: normalize_map_def empty_obj_def)

lemma no_emails_no_access: "visibility_emails (metadata note) = None \<Longrightarrow> \<not> hasSharedAccess note e"
  by (simp add: hasSharedAccess_def Let_def normalize_map_empty terms_loop_empty)

lemma no_terms_no_access:
  "toVisibilityArray (visibility (metadata note)) = [] \<Longrightarrow> \<not> hasSharedAccess note e"
  by (simp add: hasSharedAccess_def)

section \<open>Properties\<close>

subsection \<open>Scenario A\<close>

text \<open>
  Claim C1, as amended. The note parsed from the document of scenario A carries no
  \<open>visibility_emails\<close>, and \<open>hasSharedAccess\<close> reads nothing else: it denies
  \<open>alice@x.com\<close> and \<open>bob@x.com\<close> alike. When \<open>alice@x.com\<close> is listed under the term
  \<open>friends\<close> in the note's own metadata, \<open>hasSharedAccess\<close> grants \<open>alice@x.com\<close> and
  denies \<open>bob@x.com\<close>: both for the same document with the list written in its
  frontmatter and for the parsed note whose \<open>visibility_emails\<close> is set to that list.
\<close>

theorem scenario_a_access:
  "\<not> hasSharedAccess (parseDiaryxString now fresh scenario_a opt_id opt_sourceName) ''alice@x.com'' \<and>
   \<not> hasSharedAccess (parseDiaryxString now fresh scenario_a opt_id opt_sourceName) ''bob@x.com'' \<and>
   hasSharedAccess (parseDiaryxString now fresh scenario_a_listed opt_id opt_sourceName) ''alice@x.com'' \<and>
   \<not> hasSharedAccess (parseDiaryxString now fresh scenario_a_listed opt_id opt_sourceName) ''bob@x.com'' \<and>
   hasSharedAccess
     ((parseDiaryxString now fresh scenario_a opt_id opt_sourceName)
        \<lparr>metadata := \<lparr>visibility = Array [''friends''], visibility_emails = Some friends_alice\<rparr>\<rparr>)
     ''alice@x.com'' \<and>
   \<not> hasSharedAccess
     ((parseDiaryxString now fresh scenario_a opt_id opt_sourceName)
        \<lparr>metadata := \<lparr>visibility = Array [''friends''], visibility_emails = Some friends_alice\<rparr>\<rparr>)
     ''bob@x.com''"
  unfolding scenario_a_def scenario_a_listed_def friends_alice_def by code_simp

text \<open>
  The claim as stated fails: with \<open>alice@x.com\<close> listed under \<open>friends\<close> in the owner's
  stored terms, the note of scenario A is still denied to \<open>alice@x.com\<close>, and the
  shared-notes response for that viewer is empty.
\<close>

theorem scenario_a_stored_term_ignored:
  "friends_term \<in> set (diaryx_visibility_term sample_db) \<and>
   \<not> hasSharedAccess (parseDiaryxString 0 ''r'' scenario_a (Some ''n1'') None) ''alice@x.com'' \<and>
   fst (get_shared_notes 0 ''r'' sample_collation (Some viewer_alice) sample_db) = (200, [])"
  by code_simp

subsection \<open>Last writer wins\<close>




subsection \<open>Visibility terms in a sync call\<close>

text \<open>
  Claim C3, as amended. A sync call that omits \<open>visibilityTerms\<close>, or whose list holds no
  item with a string term that is non-empty after trimming (the empty list among them),
  leaves every stored visibility-term record untouched. A call with at least one such item
  that is answered with status 200 replaces the term set of the owner wholesale:
  afterwards the owner's records are exactly those of the submitted terms, in the order in
  which the inserts ran, and none of the previous set. A call in which the store rejects
  the upsert of a note is answered with status 500 and leaves every record untouched: the
  terms are not reached. In every call the records of the other users are as before, and
  either no record has changed or the owner's records are all among those of the
  submitted terms: the previous set is never merged with the new one. The call is
  answered with status 200 exactly when every valid note is accepted by the store, the
  owner id is free of U+0000 and so are the names and the normalized emails of the
  submitted terms.
\<close>

theorem sync_visibility_terms:
  "(jget p ''visibilityTerms'' = None \<or> jget p ''visibilityTerms'' = Some (JArr []) \<longrightarrow>
      validTerms p = []) \<and>
   (validTerms p = [] \<longrightarrow>
      diaryx_visibility_term
        (snd (post_notes pr order_notes order_terms now sqlnow coerce (Some u) (Some p) d)) =
      diaryx_visibility_term d) \<and>
   (validTerms p \<noteq> [] \<and>
    fst (post_notes pr order_notes order_terms now sqlnow coerce (Some u) (Some p) d) = 200 \<longrightarrow>
      filter (\<lambda>r. term_user_id r = su_id u)
        (diaryx_visibility_term
           (snd (post_notes pr order_notes order_terms now sqlnow coerce (Some u) (Some p) d))) =
      map (term_record sqlnow (su_id u))
        (scheduled order_terms (entries (fromEntries (validTerms p)))) \<and>
      filter (\<lambda>r. term_user_id r \<noteq> su_id u)
        (diaryx_visibility_term
           (snd (post_notes pr order_notes order_terms now sqlnow coerce (Some u) (Some p) d))) =
      filter (\<lambda>r. term_user_id r \<noteq> su_id u) (diaryx_visibility_term d)) \<and>
   ((\<exists>n\<in>set (validNotes now coerce p). \<exists>e. bind_note pr now (su_id u) n = Inl e) \<longrightarrow>
      fst (post_notes pr order_notes order_terms now sqlnow coerce (Some u) (Some p) d) = 500 \<and>
      diaryx_visibility_term
        (snd (post_notes pr order_notes order_terms now sqlnow coerce (Some u) (Some p) d)) =
      diaryx_visibility_term d) \<and>
   filter (\<lambda>r. term_user_id r \<noteq> su_id u)
     (diaryx_visibility_term
        (snd (post_notes pr order_notes order_terms now sqlnow coerce (Some u) (Some p) d))) =
   filter (\<lambda>r. term_user_id r \<noteq> su_id u) (diaryx_visibility_term d) \<and>
   (diaryx_visibility_term
      (snd (post_notes pr order_notes order_terms now sqlnow coerce (Some u) (Some p) d)) =
    diaryx_visibility_term d \<or>
    set (filter (\<lambda>r. term_user_id r = su_id u)
          (diaryx_visibility_term
             (snd (post_notes pr order_notes order_terms now sqlnow coerce (Some u) (Some p) d))))
      \<subseteq> term_record sqlnow (su_id u) ` set (entries (fromEntries (validTerms p)))) \<and>
   (fst (post_notes pr order_notes order_terms now sqlnow coerce (Some u) (Some p) d) = 200 \<longleftrightarrow>
      (\<forall>n\<in>set (validNotes now coerce p). \<exists>t. bind_note pr now (su_id u) n = Inr t) \<and>
      text_ok (su_id u) \<and>
      (validTerms p = [] \<or>
       (\<forall>te\<in>set (entries (fromEntries (validTerms p))).
          text_ok (fst te) \<and> list_all text_ok (normalize_emails (snd te)))))"
proof -
  let ?R = "post_notes pr order_notes order_terms now sqlnow coerce (Some u) (Some p) d"
  let ?X = "set (entries (fromEntries (validTerms p)))"
  have c1: "jget p ''visibilityTerms'' = None \<or> jget p ''visibilityTerms'' = Some (JArr []) \<longrightarrow>
      validTerms p = []"
    by (auto simp: validTerms_def jarray_def)
  have c2: "validTerms p = [] \<longrightarrow> diaryx_visibility_term (snd ?R) = diaryx_visibility_term d"
    by (simp add: post_notes_unfold Let_def)
  have c3: "validTerms p \<noteq> [] \<and> fst ?R = 200 \<longrightarrow>
      filter (\<lambda>r. term_user_id r = su_id u) (diaryx_visibility_term (snd ?R)) =
      map (term_record sqlnow (su_id u))
        (scheduled order_terms (entries (fromEntries (validTerms p)))) \<and>
      filter (\<lambda>r. term_user_id r \<noteq> su_id u) (diaryx_visibility_term (snd ?R)) =
      filter (\<lambda>r. term_user_id r \<noteq> su_id u) (diaryx_visibility_term d)"
  proof
    assume h: "validTerms p \<noteq> [] \<and> fst ?R = 200"
    let ?new = "map (term_record sqlnow (su_id u))
        (scheduled order_terms (entries (fromEntries (validTerms p))))"
    from h have eq: "diaryx_visibility_term (snd ?R) =
        filter (\<lambda>r. term_user_id r \<noteq> su_id u) (diaryx_visibility_term d) @ ?new"
      by (simp add: terms_post_notes_ok)
    have sub: "set ?new \<subseteq> term_record sqlnow (su_id u) ` ?X"
      by (simp add: set_scheduled)
    from filter_owner_new[OF sub] filter_others_new[OF sub] eq
    show "filter (\<lambda>r. term_user_id r = su_id u) (diaryx_visibility_term (snd ?R)) = ?new \<and>
      filter (\<lambda>r. term_user_id r \<noteq> su_id u) (diaryx_visibility_term (snd ?R)) =
      filter (\<lambda>r. term_user_id r \<noteq> su_id u) (diaryx_visibility_term d)"
      by simp
  qed
  have c4: "(\<exists>n\<in>set (validNotes now coerce p). \<exists>e. bind_note pr now (su_id u) n = Inl e) \<longrightarrow>
      fst ?R = 500 \<and> diaryx_visibility_term (snd ?R) = diaryx_visibility_term d"
  proof
    assume "\<exists>n\<in>set (validNotes now coerce p). \<exists>e. bind_note pr now (su_id u) n = Inl e"
    from terms_post_notes_rejected[OF this, of order_notes order_terms sqlnow d]
    show "fst ?R = 500 \<and> diaryx_visibility_term (snd ?R) = diaryx_visibility_term d"
      by simp
  qed
  from terms_post_notes_cases[of pr order_notes order_terms now sqlnow coerce u p d]
  have c5: "filter (\<lambda>r. term_user_id r \<noteq> su_id u) (diaryx_visibility_term (snd ?R)) =
      filter (\<lambda>r. term_user_id r \<noteq> su_id u) (diaryx_visibility_term d)"
  proof
    assume "diaryx_visibility_term (snd ?R) = diaryx_visibility_term d"
    then show ?thesis by simp
  next
    assume "validTerms p \<noteq> [] \<and>
      (\<forall>n\<in>set (validNotes now coerce p). \<exists>t. bind_note pr now (su_id u) n = Inr t) \<and>
      (\<exists>new. set new \<subseteq> term_record sqlnow (su_id u) ` ?X \<and>
         diaryx_visibility_term (snd ?R) =
         filter (\<lambda>r. term_user_id r \<noteq> su_id u) (diaryx_visibility_term d) @ new)"
    then obtain new where new: "set new \<subseteq> term_record sqlnow (su_id u) ` ?X"
      "diaryx_visibility_term (snd ?R) =
         filter (\<lambda>r. term_user_id r \<noteq> su_id u) (diaryx_visibility_term d) @ new"
      by blast
    from filter_others_new[OF new(1)] new(2) show ?thesis by simp
  qed
  from terms_post_notes_cases[of pr order_notes order_terms now sqlnow coerce u p d]
  have c6: "diaryx_visibility_term (snd ?R) = diaryx_visibility_term d \<or>
      set (filter (\<lambda>r. term_user_id r = su_id u) (diaryx_visibility_term (snd ?R))) \<subseteq>
      term_record sqlnow (su_id u) ` ?X"
  proof
    assume "diaryx_visibility_term (snd ?R) = diaryx_visibility_term d"
    then show ?thesis by simp
  next
    assume "validTerms p \<noteq> [] \<and>
      (\<forall>n\<in>set (validNotes now coerce p). \<exists>t. bind_note pr now (su_id u) n = Inr t) \<and>
      (\<exists>new. set new \<subseteq> term_record sqlnow (su_id u) ` ?X \<and>
         diaryx_visibility_term (snd ?R) =
         filter (\<lambda>r. term_user_id r \<noteq> su_id u) (diaryx_visibility_term d) @ new)"
    then obtain new where new: "set new \<subseteq> term_record sqlnow (su_id u) ` ?X"
      "diaryx_visibility_term (snd ?R) =
         filter (\<lambda>r. term_user_id r \<noteq> su_id u) (diaryx_visibility_term d) @ new"
      by blast
    from filter_owner_new[OF new(1)] new show ?thesis by simp
  qed
  note c7 = status_post_notes[of pr order_notes order_terms now sqlnow coerce u p d]
  from c1 c2 c3 c4 c5 c6 c7 show ?thesis by (intro conjI)
qed

theorem sync_visibility_terms_witness:
  "jget payload_empty_terms ''visibilityTerms'' = Some (JArr []) \<and>
   validTerms payload_empty_terms = [] \<and>
   diaryx_visibility_term
     (snd (post_notes printed_exact [] [] 7 9 no_coercion (Some owner_u1)
        (Some payload_empty_terms) sample_db)) =
     [friends_term] \<and>
   validTerms payload_family \<noteq> [] \<and>
   fst (post_notes printed_exact [] [0] 7 9 no_coercion (Some owner_u1)
        (Some payload_family) sample_db) = 200 \<and>
   filter (\<lambda>r. term_user_id r = ''u1'')
     (diaryx_visibility_term
        (snd (post_notes printed_exact [] [0] 7 9 no_coercion (Some owner_u1)
           (Some payload_family) sample_db))) =
     [family_term] \<and>
   validNotes 7 no_coercion payload_rejected_note =
     [\<lparr>in_id = ''n2'', in_markdown = ''x'', in_sourceName = None,
       in_lastModified = Integer 10000000000000000000\<rparr>] \<and>
   bind_note printed_exact 7 ''u1''
     \<lparr>in_id = ''n2'', in_markdown = ''x'', in_sourceName = None,
      in_lastModified = Integer 10000000000000000000\<rparr> = Inl BigintOutOfRange \<and>
   validTerms payload_rejected_note \<noteq> [] \<and>
   fst (post_notes printed_exact [0] [0] 7 9 no_coercion (Some owner_u1)
        (Some payload_rejected_note) sample_db) = 500 \<and>
   diaryx_visibility_term
     (snd (post_notes printed_exact [0] [0] 7 9 no_coercion (Some owner_u1)
        (Some payload_rejected_note) sample_db)) =
     [friends_term]"
proof -
  have arr: "jget payload_empty_terms ''visibilityTerms'' = Some (JArr [])" by code_simp
  have fam: "validTerms payload_family = [(''family'', [''carol@x.com'', ''carol@x.com''])]"
    by code_simp
  have rows: "map (term_record 9 (su_id owner_u1))
                (scheduled [0]
                   (entries (fromEntries [(''family'', [''carol@x.com'', ''carol@x.com''])]))) =
              [family_term]"
    by code_simp
  have ok: "fst (post_notes printed_exact [] [0] 7 9 no_coercion (Some owner_u1)
        (Some payload_family) sample_db) = 200"
    by code_simp
  have vn: "validNotes 7 no_coercion payload_rejected_note =
     [\<lparr>in_id = ''n2'', in_markdown = ''x'', in_sourceName = None,
       in_lastModified = Integer 10000000000000000000\<rparr>]"
    by code_simp
  have rej: "bind_note printed_exact 7 ''u1''
     \<lparr>in_id = ''n2'', in_markdown = ''x'', in_sourceName = None,
      in_lastModified = Integer 10000000000000000000\<rparr> = Inl BigintOutOfRange"
    by code_simp
  have vt: "validTerms payload_rejected_note \<noteq> []" by code_simp
  have u: "su_id owner_u1 = ''u1''" by (simp add: owner_u1_def)
  have old: "diaryx_visibility_term sample_db = [friends_term]" by (simp add: sample_db_def)
  note empty = sync_visibility_terms[of payload_empty_terms printed_exact "[]" "[]" 7 9
      no_coercion owner_u1 sample_db]
  note family = sync_visibility_terms[of payload_family printed_exact "[]" "[0]" 7 9
      no_coercion owner_u1 sample_db]
  note rejected = sync_visibility_terms[of payload_rejected_note printed_exact "[0]" "[0]" 7 9
      no_coercion owner_u1 sample_db]
  from empty arr have e: "validTerms payload_empty_terms = []" by blast
  with empty old have kept:
    "diaryx_visibility_term
       (snd (post_notes printed_exact [] [] 7 9 no_coercion (Some owner_u1)
          (Some payload_empty_terms) sample_db)) =
     [friends_term]"
    by simp
  from fam have ne: "validTerms payload_family \<noteq> []" by simp
  from family ne ok have
    "filter (\<lambda>r. term_user_id r = su_id owner_u1)
       (diaryx_visibility_term
          (snd (post_notes printed_exact [] [0] 7 9 no_coercion (Some owner_u1)
             (Some payload_family) sample_db))) =
     map (term_record 9 (su_id owner_u1))
       (scheduled [0] (entries (fromEntries (validTerms payload_family))))"
    by blast
  with fam rows u have replaced:
    "filter (\<lambda>r. term_user_id r = ''u1'')
       (diaryx_visibility_term
          (snd (post_notes printed_exact [] [0] 7 9 no_coercion (Some owner_u1)
             (Some payload_family) sample_db))) =
     [family_term]"
    by simp
  from vn rej u have "\<exists>n\<in>set (validNotes 7 no_coercion payload_rejected_note).
      \<exists>e. bind_note printed_exact 7 (su_id owner_u1) n = Inl e"
    by simp
  with rejected old have failed:
    "fst (post_notes printed_exact [0] [0] 7 9 no_coercion (Some owner_u1)
        (Some payload_rejected_note) sample_db) = 500 \<and>
     diaryx_visibility_term
       (snd (post_notes printed_exact [0] [0] 7 9 no_coercion (Some owner_u1)
          (Some payload_rejected_note) sample_db)) =
     [friends_term]"
    by simp
  from arr e kept ne ok replaced vn rej vt failed show ?thesis by (intro conjI) simp_all
qed

text \<open>
  The claim as stated fails on the empty list: the sync call with
  \<open>{"visibilityTerms": []}\<close> is answered with status 200 and leaves the owner's stored
  term in place.
\<close>

theorem empty_terms_list_keeps_terms:
  "fst (post_notes printed_exact [] [] 7 9 no_coercion (Some owner_u1)
        (Some payload_empty_terms) sample_db) = 200 \<and>
   filter (\<lambda>r. term_user_id r = su_id owner_u1)
     (diaryx_visibility_term
        (snd (post_notes printed_exact [] [] 7 9 no_coercion (Some owner_u1)
           (Some payload_empty_terms) sample_db))) =
   [friends_term]"
  by code_simp

subsection \<open>Stored emails\<close>

text \<open>
  Claim C4. Whatever the session, the payload, the store and the order in which the
  statements run are, every visibility-term record in the store after \<open>POST /api/notes\<close>
  is a record that was there before or has an email list without duplicates in which
  every email is non-empty, trimmed, lower-cased and contains \<open>@\<close>: a submitted email
  without \<open>@\<close> is never stored. The trimming, the lower-casing, the removal of empty
  strings and of duplicates are those of \<open>updateVisibilityTermsForUser\<close>, for every term
  map it is given; the \<open>@\<close> filter is the handler's.
\<close>

theorem stored_emails_normal:
  "(\<forall>r \<in> set (diaryx_visibility_term
        (snd (post_notes pr order_notes order_terms now sqlnow coerce user payload d))).
      r \<in> set (diaryx_visibility_term d) \<or>
      (distinct (emails r) \<and>
       (\<forall>e \<in> set (emails r).
          e \<noteq> [] \<and> trim e = e \<and> toLowerCase e = e \<and> includes_char e CHR ''@''))) \<and>
   (\<forall>r \<in> set (diaryx_visibility_term
        (snd (updateVisibilityTermsForUser order sqlnow owner terms d))).
      r \<in> set (diaryx_visibility_term d) \<or>
      (distinct (emails r) \<and>
       (\<forall>e \<in> set (emails r). e \<noteq> [] \<and> trim e = e \<and> toLowerCase e = e)))"
proof (intro conjI ballI)
  fix r
  assume r: "r \<in> set (diaryx_visibility_term
        (snd (post_notes pr order_notes order_terms now sqlnow coerce user payload d)))"
  show "r \<in> set (diaryx_visibility_term d) \<or>
      (distinct (emails r) \<and>
       (\<forall>e \<in> set (emails r).
          e \<noteq> [] \<and> trim e = e \<and> toLowerCase e = e \<and> includes_char e CHR ''@''))"
  proof (cases user)
    case None
    with r show ?thesis by (simp add: post_notes_def)
  next
    case (Some u)
    show ?thesis
    proof (cases payload)
      case None
      with r Some show ?thesis by (simp add: post_notes_def)
    next
      case (Some p)
      show ?thesis
      proof (cases "r \<in> set (diaryx_visibility_term d)")
        case True
        then show ?thesis by simp
      next
        case False
        from terms_post_notes_cases[of pr order_notes order_terms now sqlnow coerce u p d]
          r \<open>user = Some u\<close> Some False
        obtain new where new:
          "set new \<subseteq> term_record sqlnow (su_id u) ` set (entries (fromEntries (validTerms p)))"
          "r \<in> set (filter (\<lambda>r. term_user_id r \<noteq> su_id u) (diaryx_visibility_term d) @ new)"
          by auto
        from new(2) False have "r \<in> set new" by auto
        with new(1) obtain te
          where te: "te \<in> set (entries (fromEntries (validTerms p)))"
            and em: "emails r = normalize_emails (snd te)"
          by (auto simp: term_record_def)
        from te set_fromEntries have "(fst te, snd te) \<in> set (validTerms p)" by force
        from validTerms_at[OF this] have "\<forall>e\<in>set (snd te). includes_char e CHR ''@''" .
        from normalize_emails_normal[OF this] em show ?thesis by simp
      qed
    qed
  qed
next
  fix r
  assume r: "r \<in> set (diaryx_visibility_term
        (snd (updateVisibilityTermsForUser order sqlnow owner terms d)))"
  show "r \<in> set (diaryx_visibility_term d) \<or>
      (distinct (emails r) \<and>
       (\<forall>e \<in> set (emails r). e \<noteq> [] \<and> trim e = e \<and> toLowerCase e = e))"
  proof (cases "r \<in> set (diaryx_visibility_term d)")
    case True
    then show ?thesis by simp
  next
    case False
    with r terms_update_subset[of order sqlnow owner terms d]
    obtain te where "emails r = normalize_emails (snd te)"
      by (auto simp: term_record_def)
    with normalize_emails_shape[of "snd te"] show ?thesis by simp
  qed
qed

theorem stored_emails_normal_witness:
  "family_term \<in> set (diaryx_visibility_term
      (snd (post_notes printed_exact [] [0] 7 9 no_coercion (Some owner_u1)
         (Some payload_family) sample_db))) \<and>
   family_term \<in> set (diaryx_visibility_term
      (snd (updateVisibilityTermsForUser [0] 9 ''u1''
         (fromEntries [(''family'', ['' Carol@X.com '', ''carol@x.com'', ''''])]) sample_db))) \<and>
   family_term \<notin> set (diaryx_visibility_term sample_db) \<and>
   emails family_term = [''carol@x.com''] \<and>
   distinct (emails family_term) \<and>
   trim ''carol@x.com'' = ''carol@x.com'' \<and>
   toLowerCase ''carol@x.com'' = ''carol@x.com'' \<and>
   includes_char ''carol@x.com'' CHR ''@''"
proof -
  have m1: "family_term \<in> set (diaryx_visibility_term
      (snd (post_notes printed_exact [] [0] 7 9 no_coercion (Some owner_u1)
         (Some payload_family) sample_db)))"
    by code_simp
  have m2: "family_term \<in> set (diaryx_visibility_term
      (snd (updateVisibilityTermsForUser [0] 9 ''u1''
         (fromEntries [(''family'', ['' Carol@X.com '', ''carol@x.com'', ''''])]) sample_db)))"
    by code_simp
  have new: "family_term \<notin> set (diaryx_visibility_term sample_db)" by code_simp
  have em: "emails family_term = [''carol@x.com'']" by (simp add: family_term_def)
  from stored_emails_normal[of printed_exact "[]" "[0]" 7 9 no_coercion "Some owner_u1"
      "Some payload_family" sample_db]
    m1 new
  have normal: "distinct (emails family_term) \<and>
        (\<forall>e \<in> set (emails family_term).
           e \<noteq> [] \<and> trim e = e \<and> toLowerCase e = e \<and> includes_char e CHR ''@'')"
    by blast
  with em have "trim ''carol@x.com'' = ''carol@x.com'' \<and>
      toLowerCase ''carol@x.com'' = ''carol@x.com'' \<and> includes_char ''carol@x.com'' CHR ''@''"
    by simp
  with normal m1 m2 new em show ?thesis by blast
qed

subsection \<open>Notes without visibility terms\<close>

text \<open>
  Claim C5. A note whose \<open>visibility\<close> is absent, or normalizes to the empty list, is
  denied to every viewer email, and so it is in no result of shared-note discovery,
  whatever the viewer, the candidate rows and the store are.
\<close>

theorem no_visibility_no_access:
  assumes "visibility (metadata note) = Absent \<or> toVisibilityArray (visibility (metadata note)) = []"
  shows "\<not> hasSharedAccess note email \<and>
         note \<notin> set (shared_notes now fresh lc email rows) \<and>
         note \<notin> set (snd (fst (get_shared_notes now fresh lc user d)))"
proof -
  from assms have empty: "toVisibilityArray (visibility (metadata note)) = []"
    by (auto simp: toVisibilityArray_def)
  then have denied: "\<And>e. \<not> hasSharedAccess note e" by (rule no_terms_no_access)
  with shared_notes_access[of "note" now fresh lc email rows]
    get_shared_notes_access[of "note" now fresh lc user d]
  show ?thesis by blast
qed

theorem no_visibility_no_access_witness:
  "visibility (metadata (note_of_row 0 ''r'' row_plain)) = Absent \<and>
   \<not> hasSharedAccess (note_of_row 0 ''r'' row_plain) ''alice@x.com'' \<and>
   note_of_row 0 ''r'' row_plain \<notin>
     set (shared_notes 0 ''r'' sample_collation ''alice@x.com'' [row_plain])"
proof -
  have absent: "visibility (metadata (note_of_row 0 ''r'' row_plain)) = Absent" by code_simp
  then have "visibility (metadata (note_of_row 0 ''r'' row_plain)) = Absent \<or>
      toVisibilityArray (visibility (metadata (note_of_row 0 ''r'' row_plain))) = []"
    by simp
  from no_visibility_no_access[OF this, of "''alice@x.com''" 0 "''r''" sample_collation "[row_plain]"]
    absent
  show ?thesis by blast
qed

subsection \<open>Parsing the block form\<close>

text \<open>
  Claim C6. The block-form document of scenario B parses to the visibility list
  \<open>["friends"]\<close> and the email mapping \<open>{friends: ["alice@x.com"]}\<close>, whatever the
  clock, the generated id and the options are.
\<close>

theorem block_form_metadata:
  "metadata (parseDiaryxString now fresh scenario_b opt_id opt_sourceName) =
     \<lparr>visibility = Array [''friends''], visibility_emails = Some friends_alice\<rparr>"
  unfolding scenario_b_def friends_alice_def by code_simp

subsection \<open>The result of discovery\<close>

text \<open>
  Claim C7. Let \<open>lc\<close>, the collation behind \<open>localeCompare\<close>, be a total and transitive
  comparison. Then the result of shared-note discovery holds at most one note per id; each
  note in it is the first access-granted candidate with its id, in the order of the
  candidate rows, and every id of an access-granted candidate is in it; it is sorted by
  \<open>lastModified\<close>, descending, and among equal timestamps by \<open>lc\<close> on the ids,
  ascending. In particular two access-granted candidates with the same \<open>lastModified\<close>
  and the ids \<open>b\<close> and \<open>a\<close>, in that order, come out as \<open>a\<close>, \<open>b\<close> when \<open>lc\<close> puts
  \<open>a\<close> before \<open>b\<close>.
\<close>

theorem discovery_dedup_sorted:
  assumes total: "\<forall>a b. lc a b \<le> 0 \<or> lc b a \<le> 0"
    and trans: "\<forall>a b c. lc a b \<le> 0 \<longrightarrow> lc b c \<le> 0 \<longrightarrow> lc a c \<le> 0"
  shows "distinct (map note_id (shared_notes now fresh lc e rows)) \<and>
    (\<forall>n \<in> set (shared_notes now fresh lc e rows).
       \<exists>pre post. granted now fresh e rows = pre @ n # post \<and> note_id n \<notin> note_id ` set pre) \<and>
    note_id ` set (shared_notes now fresh lc e rows) = note_id ` set (granted now fresh e rows) \<and>
    sorted_wrt (\<lambda>a b. lastModified b < lastModified a \<or>
                  (lastModified a = lastModified b \<and> lc (note_id a) (note_id b) \<le> 0))
      (shared_notes now fresh lc e rows) \<and>
    (\<forall>r1 r2. rows = [r1, r2] \<and> row_id r1 = ''b'' \<and> row_id r2 = ''a'' \<and>
         last_modified r1 = last_modified r2 \<and>
         hasSharedAccess (note_of_row now fresh r1) e \<and>
         hasSharedAccess (note_of_row now fresh r2) e \<and>
         0 < lc ''b'' ''a'' \<longrightarrow>
       map note_id (shared_notes now fresh lc e rows) = [''a'', ''b''])"
proof (intro conjI)
  show "distinct (map note_id (shared_notes now fresh lc e rows))"
    by (simp add: shared_notes_def distinct_map_js_sort shared_loop_first_by_id first_by_id_distinct)
  show "\<forall>n \<in> set (shared_notes now fresh lc e rows).
       \<exists>pre post. granted now fresh e rows = pre @ n # post \<and> note_id n \<notin> note_id ` set pre"
    using first_by_id_first[of _ "{}" "granted now fresh e rows"]
    by (simp add: shared_notes_def set_js_sort shared_loop_first_by_id)
  show "note_id ` set (shared_notes now fresh lc e rows) = note_id ` set (granted now fresh e rows)"
    by (simp add: shared_notes_def set_js_sort shared_loop_first_by_id first_by_id_ids)
  have t: "\<And>a b. compare_notes lc a b \<le> 0 \<or> compare_notes lc b a \<le> 0"
    using total by (auto simp: compare_notes_le)
  have tr: "\<And>a b c. compare_notes lc a b \<le> 0 \<Longrightarrow> compare_notes lc b c \<le> 0 \<Longrightarrow>
      compare_notes lc a c \<le> 0"
    using trans unfolding compare_notes_le by (metis order.strict_trans)
  show "sorted_wrt (\<lambda>a b. lastModified b < lastModified a \<or>
                  (lastModified a = lastModified b \<and> lc (note_id a) (note_id b) \<le> 0))
      (shared_notes now fresh lc e rows)"
    using sorted_js_sort[of "compare_notes lc", OF t tr]
    by (simp add: shared_notes_def compare_notes_le)
  show "\<forall>r1 r2. rows = [r1, r2] \<and> row_id r1 = ''b'' \<and> row_id r2 = ''a'' \<and>
         last_modified r1 = last_modified r2 \<and>
         hasSharedAccess (note_of_row now fresh r1) e \<and>
         hasSharedAccess (note_of_row now fresh r2) e \<and>
         0 < lc ''b'' ''a'' \<longrightarrow>
       map note_id (shared_notes now fresh lc e rows) = [''a'', ''b'']"
    by (auto simp: shared_notes_def js_sort_def Let_def compare_notes_def note_of_row_def
          parseDiaryxString_def)
qed

theorem discovery_dedup_sorted_witness:
  "hasSharedAccess (note_of_row 0 ''r'' row_b) ''alice@x.com'' \<and>
   hasSharedAccess (note_of_row 0 ''r'' row_a) ''alice@x.com'' \<and>
   0 < sample_collation ''b'' ''a'' \<and>
   map note_id (shared_notes 0 ''r'' sample_collation ''alice@x.com'' [row_b, row_a]) =
     [''a'', ''b'']"
proof -
  have total: "\<forall>a b. sample_collation a b \<le> 0 \<or> sample_collation b a \<le> 0"
    by (auto simp: sample_collation_def)
  have trans: "\<forall>a b c. sample_collation a b \<le> 0 \<longrightarrow> sample_collation b c \<le> 0 \<longrightarrow>
      sample_collation a c \<le> 0"
    by (auto simp: sample_collation_def split: if_splits)
  have b: "hasSharedAccess (note_of_row 0 ''r'' row_b) ''alice@x.com''" by code_simp
  have a: "hasSharedAccess (note_of_row 0 ''r'' row_a) ''alice@x.com''" by code_simp
  have lt: "0 < sample_collation ''b'' ''a''" by (simp add: sample_collation_def)
  have ids: "row_id row_b = ''b''" "row_id row_a = ''a''" "last_modified row_b = last_modified row_a"
    by (simp_all add: row_a_def row_b_def)
  from discovery_dedup_sorted[OF total trans, of 0 "''r''" "''alice@x.com''" "[row_b, row_a]"]
  have "\<forall>r1 r2. [row_b, row_a] = [r1, r2] \<and> row_id r1 = ''b'' \<and> row_id r2 = ''a'' \<and>
         last_modified r1 = last_modified r2 \<and>
         hasSharedAccess (note_of_row 0 ''r'' r1) ''alice@x.com'' \<and>
         hasSharedAccess (note_of_row 0 ''r'' r2) ''alice@x.com'' \<and>
         0 < sample_collation ''b'' ''a'' \<longrightarrow>
       map note_id (shared_notes 0 ''r'' sample_collation ''alice@x.com'' [row_b, row_a]) =
         [''a'', ''b'']"
    by blast
  with a b lt ids
  have "map note_id (shared_notes 0 ''r'' sample_collation ''alice@x.com'' [row_b, row_a]) =
      [''a'', ''b'']"
    by blast
  with a b lt show ?thesis by blast
qed

subsection \<open>Documents without a metadata block\<close>



subsection \<open>The access check reads the note only\<close>

text \<open>
  Claim C9. A note without a \<open>visibility_emails\<close> mapping of its own is denied to every
  viewer, whatever its visibility terms are, and is in no shared-notes response, whatever
  the store holds; the response of \<open>GET /api/shared-notes\<close> does not depend on the
  table of visibility terms at all.
\<close>

theorem access_needs_embedded_emails:
  assumes "visibility_emails (metadata note) = None"
  shows "\<not> hasSharedAccess note email \<and>
         note \<notin> set (snd (fst (get_shared_notes now fresh lc user d))) \<and>
         fst (get_shared_notes now fresh lc user (d\<lparr>diaryx_visibility_term := ts\<rparr>)) =
         fst (get_shared_notes now fresh lc user d)"
proof -
  from assms have "\<And>e. \<not> hasSharedAccess note e" by (rule no_emails_no_access)
  with get_shared_notes_access[of "note" now fresh lc user d] get_shared_notes_frame
  show ?thesis by blast
qed

theorem access_needs_embedded_emails_witness:
  "visibility_emails (metadata (note_of_row 0 ''r'' row_n1)) = None \<and>
   visibility (metadata (note_of_row 0 ''r'' row_n1)) = Array [''friends''] \<and>
   friends_term \<in> set (diaryx_visibility_term sample_db) \<and>
   \<not> hasSharedAccess (note_of_row 0 ''r'' row_n1) ''alice@x.com'' \<and>
   fst (get_shared_notes 0 ''r'' sample_collation (Some viewer_alice)
          (sample_db\<lparr>diaryx_visibility_term := []\<rparr>)) =
   fst (get_shared_notes 0 ''r'' sample_collation (Some viewer_alice) sample_db)"
proof -
  have none: "visibility_emails (metadata (note_of_row 0 ''r'' row_n1)) = None" by code_simp
  have vis: "visibility (metadata (note_of_row 0 ''r'' row_n1)) = Array [''friends'']" by code_simp
  have listed: "friends_term \<in> set (diaryx_visibility_term sample_db)" by code_simp
  from access_needs_embedded_emails[OF none, of "''alice@x.com''" 0 "''r''" sample_collation
      "Some viewer_alice" sample_db "[]"] none vis listed
  show ?thesis by blast
qed

subsection \<open>Upserting nothing\<close>

text \<open>
  Claim C10. \<open>upsertNotesForUser\<close> called with an empty list or with \<open>null\<close> returns
  before it touches the pool: it raises no error, and the two tables and the set of
  ensured pools are as before.
\<close>

theorem upsert_nothing_is_identity:
  "upsertNotesForUser pr order now sqlnow owner (Some []) d = (None, d) \<and>
   upsertNotesForUser pr order now sqlnow owner None d = (None, d)"
  by (simp add: upsertNotesForUser_def)

end
